theory Spec2Isabelle
  imports Complex_Main "HOL-Library.AList"
begin

section \<open>The unet graph cache of \<open>OneFlowStableDiffusionPipeline\<close>\<close>

text \<open>
  Source: \<^verbatim>\<open>src/diffusers/pipelines/stable_diffusion/pipeline_stable_diffusion_oneflow.py\<close>.
  The pipeline keeps its compiled unet graphs in the dict \<^verbatim>\<open>self.unet_graphs\<close>, keyed by
  the pair \<^verbatim>\<open>(height, width)\<close>, each value a pair of the logical time of the last use and
  the graph object. A Python dict iterates in insertion order and assigning to a key that
  is present keeps its position, so the dict is an association list with \<open>AList.update\<close>
  (replace in place, else append) and \<open>AList.delete\<close>.
\<close>

datatype error =
    ValueError          \<comment> \<open>raised by the argument checks and by \<^verbatim>\<open>min\<close> of an empty sequence\<close>
  | UnboundLocalError   \<comment> \<open>\<^verbatim>\<open>unrolled_timesteps_graph\<close> read without having been assigned\<close>
  | CompileRaised       \<comment> \<open>the exception that leaves \<^verbatim>\<open>graph._compile(...)\<close>\<close>
  | WarmupRaised        \<comment> \<open>the exception that leaves the warmup call of the new graph\<close>
  | RuntimeError        \<comment> \<open>raised by \<^verbatim>\<open>OneflowDeployableModule.to\<close>\<close>
  | StopIteration       \<comment> \<open>\<^verbatim>\<open>next\<close> of an iterator that yields nothing\<close>
  | CompilationFailed   \<comment> \<open>the exception that leaves the first call of a deployable module's graph\<close>
  | TypeError           \<comment> \<open>iteration over \<^verbatim>\<open>None\<close>\<close>
  | ProcessingRaised    \<comment> \<open>an exception that leaves \<^verbatim>\<open>process_images\<close>\<close>

type_synonym shape = "int \<times> int"

datatype graph_class = UNetGraph | UnrolledDenoiseGraph

text \<open>A graph object: its identity (the number of graph objects created before it) and its class.\<close>

datatype graph = Graph (graph_id: nat) (graph_class: graph_class)

type_synonym unet_graphs_dict = "(shape \<times> (int \<times> graph)) list"

text \<open>What the pipeline does with its graphs, in the order the source does it.\<close>

datatype event =
    Evict shape          \<comment> \<open>\<^verbatim>\<open>del self.unet_graphs[shape_to_del]\<close>\<close>
  | Compile graph        \<comment> \<open>\<^verbatim>\<open>graph._compile(...)\<close> is called\<close>
  | Warmup graph         \<comment> \<open>the warmup call of the graph has returned\<close>
  | Insert shape graph   \<comment> \<open>\<^verbatim>\<open>self.unet_graphs[height, width] = (time, graph)\<close> for a new graph\<close>
  | Denoise graph        \<comment> \<open>the graph is the one the denoising of this call runs\<close>

text \<open>
  The compiler and the graph runtime are outside the repository; what they do in one call
  is a parameter of that call.
\<close>

datatype backend = BackendOk | CompileFails | WarmupFails

record pipeline =
  unet_graphs :: unet_graphs_dict
  unet_graphs_cache_size :: int
  unet_graphs_lru_cache_time :: int
  in_channels :: int          \<comment> \<open>\<^verbatim>\<open>self.unet.in_channels\<close>\<close>
  model_max_length :: int     \<comment> \<open>\<^verbatim>\<open>self.tokenizer.model_max_length\<close>\<close>
  hidden_size :: int          \<comment> \<open>last dimension of the text encoder's output\<close>
  graphs_created :: nat       \<comment> \<open>how many graph objects exist: the next object's identity\<close>
  trace :: "event list"

text \<open>\<^verbatim>\<open>__init__\<close>: an empty dict, cache size 1, time 0.\<close>

definition init_pipeline :: "int \<Rightarrow> int \<Rightarrow> int \<Rightarrow> pipeline" where
  "init_pipeline c l h =
     \<lparr>unet_graphs = [], unet_graphs_cache_size = 1, unet_graphs_lru_cache_time = 0,
      in_channels = c, model_max_length = l, hidden_size = h, graphs_created = 0, trace = []\<rparr>"

text \<open>\<^verbatim>\<open>set_unet_graphs_cache_size\<close>: one assignment.\<close>

definition set_unet_graphs_cache_size :: "int \<Rightarrow> pipeline \<Rightarrow> pipeline" where
  "set_unet_graphs_cache_size cache_size s = s\<lparr>unet_graphs_cache_size := cache_size\<rparr>"

text \<open>
  Python's \<^verbatim>\<open>min(iterable, key=f)\<close> on a non-empty iterable: the running best is replaced
  only by an element whose key is strictly smaller, so the first minimal element wins.
\<close>

fun py_min :: "('a \<Rightarrow> int) \<Rightarrow> 'a \<Rightarrow> 'a list \<Rightarrow> 'a" where
  "py_min f best [] = best"
| "py_min f best (x # xs) = py_min f (if f x < f best then x else best) xs"

definition lru_time :: "shape \<times> (int \<times> graph) \<Rightarrow> int" where
  "lru_time e = fst (snd e)"

text \<open>
  The eviction loop
  \<^verbatim>\<open>while len(self.unet_graphs) >= self.unet_graphs_cache_size:
      shape_to_del = min(self.unet_graphs.keys(), key=lambda shape: self.unet_graphs[shape][0])
      del self.unet_graphs[shape_to_del]\<close>
  It returns the error \<^verbatim>\<open>min\<close> raises on an empty dict (when the cache size is not
  positive), the shapes deleted in order, and the dict that is left.
\<close>

function evict_lru :: "int \<Rightarrow> unet_graphs_dict \<Rightarrow> error option \<times> shape list \<times> unet_graphs_dict" where
  "evict_lru cache_size d =
     (if cache_size \<le> int (length d) then
        (case d of
           [] \<Rightarrow> (Some ValueError, [], [])
         | e # es \<Rightarrow>
             (let shape_to_del = fst (py_min lru_time e es);
                  (err, dels, d') = evict_lru cache_size (AList.delete shape_to_del d)
              in (err, shape_to_del # dels, d')))
      else (None, [], d))"
  by pat_completeness auto

termination evict_lru
proof (relation "measure (\<lambda>(c, d). length d)")
  show "wf (measure (\<lambda>(c :: int, d :: unet_graphs_dict). length d))" by simp
next
  fix cache_size :: int and d :: unet_graphs_dict and e es shape_to_del
  assume d: "d = e # es" and k: "shape_to_del = fst (py_min lru_time e es)"
  have "py_min lru_time b xs \<in> set (b # xs)" for b :: "shape \<times> int \<times> graph" and xs
    by (induction xs arbitrary: b) auto
  then have "shape_to_del \<in> fst ` set d"
    unfolding d k by (metis imageI)
  moreover have "k \<in> fst ` set al \<Longrightarrow> length (AList.delete k al) < length al"
    for k :: shape and al :: unet_graphs_dict
  proof (induction al)
    case Nil
    then show ?case by simp
  next
    case (Cons p ps)
    show ?case
    proof (cases "fst p = k")
      case True
      then show ?thesis by (simp add: less_Suc_eq_le AList.length_delete_le)
    next
      case False
      with Cons.prems have "k \<in> fst ` set ps" by auto
      with Cons.IH False show ?thesis by simp
    qed
  qed
  ultimately show "((cache_size, AList.delete shape_to_del d), (cache_size, d))
               \<in> measure (\<lambda>(c, d). length d)"
    by simp
qed

declare evict_lru.simps [simp del]

text \<open>
  Lines 384 to 418, the block under \<^verbatim>\<open>if compile_unet:\<close>. The time is incremented first;
  a hit rewrites the entry with the new time; a miss runs the eviction loop, creates the
  graph object of the class \<^verbatim>\<open>unrolled_timesteps\<close> selects (\<open>new_graph\<close>), compiles it,
  runs it once (the warmup) and only then stores it. An exception leaves the state as it is at that
  point.
\<close>

definition new_graph :: "bool \<Rightarrow> pipeline \<Rightarrow> graph" where
  "new_graph unrolled s =
     Graph (graphs_created s) (if unrolled then UnrolledDenoiseGraph else UNetGraph)"

definition compile_unet_block ::
  "backend \<Rightarrow> shape \<Rightarrow> bool \<Rightarrow> pipeline \<Rightarrow> (error + graph) \<times> pipeline" where
  "compile_unet_block be hw unrolled s =
     (let s1 = s\<lparr>unet_graphs_lru_cache_time := unet_graphs_lru_cache_time s + 1\<rparr> in
      case map_of (unet_graphs s1) hw of
        Some (_, unet_graph) \<Rightarrow>
          (Inr unet_graph,
           s1\<lparr>unet_graphs :=
                 AList.update hw (unet_graphs_lru_cache_time s1, unet_graph) (unet_graphs s1)\<rparr>)
      | None \<Rightarrow>
          (case evict_lru (unet_graphs_cache_size s1) (unet_graphs s1) of
             (Some e, dels, d') \<Rightarrow>
               (Inl e, s1\<lparr>unet_graphs := d', trace := trace s1 @ map Evict dels\<rparr>)
           | (None, dels, d') \<Rightarrow>
               (let g = new_graph unrolled s1;
                    s2 = s1\<lparr>unet_graphs := d',
                            graphs_created := Suc (graphs_created s1),
                            trace := trace s1 @ map Evict dels @ [Compile g]\<rparr>
                in if be = CompileFails then (Inl CompileRaised, s2)
                   else if be = WarmupFails then (Inl WarmupRaised, s2)
                   else (Inr g,
                         s2\<lparr>unet_graphs :=
                               AList.update hw (unet_graphs_lru_cache_time s1, g) d',
                            trace := trace s2 @ [Warmup g, Insert hw g]\<rparr>))))"

text \<open>
  The arguments of \<^verbatim>\<open>__call__\<close> that decide which path is taken before and in the cache
  block. \<^verbatim>\<open>prompt\<close> is a \<^verbatim>\<open>str\<close>, a list (of the given length) or something else.
\<close>

datatype prompt = PromptStr | PromptList nat | PromptOther

record call_args =
  prompt :: prompt
  height :: int
  width :: int
  guidance_scale :: real
  latents :: "(int \<times> int \<times> int \<times> int) option"   \<comment> \<open>the shape of the latents passed in, if any\<close>
  compile_unet :: bool
  unrolled_timesteps :: bool

definition batch_size :: "call_args \<Rightarrow> int option" where
  "batch_size a =
     (case prompt a of PromptStr \<Rightarrow> Some 1 | PromptList n \<Rightarrow> Some (int n) | PromptOther \<Rightarrow> None)"

definition latents_shape :: "int \<Rightarrow> call_args \<Rightarrow> int \<Rightarrow> int \<times> int \<times> int \<times> int" where
  "latents_shape c a b = (b, c, height a div 8, width a div 8)"

text \<open>
  \<^verbatim>\<open>__call__\<close>, as far as the unet graph is concerned: the three argument checks that
  raise \<^verbatim>\<open>ValueError\<close> before the cache is touched, the cache block, and the graph the
  denoising runs (\<open>None\<close> when the unet is called eagerly). With
  \<^verbatim>\<open>unrolled_timesteps\<close> and without \<^verbatim>\<open>compile_unet\<close> the variable
  \<^verbatim>\<open>unrolled_timesteps_graph\<close> is read unassigned. The text encoder, the vae and the
  arithmetic of the denoising loop are left out.
\<close>

definition pipeline_call ::
  "backend \<Rightarrow> call_args \<Rightarrow> pipeline \<Rightarrow> (error + graph option) \<times> pipeline" where
  "pipeline_call be a s =
     (case batch_size a of
        None \<Rightarrow> (Inl ValueError, s)
      | Some b \<Rightarrow>
          if height a mod 8 \<noteq> 0 \<or> width a mod 8 \<noteq> 0 then (Inl ValueError, s)
          else if (case latents a of None \<Rightarrow> False | Some sh \<Rightarrow> sh \<noteq> latents_shape (in_channels s) a b)
          then (Inl ValueError, s)
          else if compile_unet a then
            (case compile_unet_block be (height a, width a) (unrolled_timesteps a) s of
               (Inl e, s') \<Rightarrow> (Inl e, s')
             | (Inr g, s') \<Rightarrow> (Inr (Some g), s'\<lparr>trace := trace s' @ [Denoise g]\<rparr>))
          else if unrolled_timesteps a then (Inl UnboundLocalError, s)
          else (Inr None, s))"

text \<open>A sequence of calls on one pipeline; an exception ends its call, not the sequence.\<close>

fun run_calls ::
  "(backend \<times> call_args) list \<Rightarrow> pipeline \<Rightarrow> (error + graph option) list \<times> pipeline" where
  "run_calls [] s = ([], s)"
| "run_calls (c # cs) s =
     (let (r, s1) = pipeline_call (fst c) (snd c) s;
          (rs, s2) = run_calls cs s1
      in (r # rs, s2))"

text \<open>The graphs the compiler was called on, in order.\<close>

fun compiled_graphs :: "event list \<Rightarrow> graph list" where
  "compiled_graphs [] = []"
| "compiled_graphs (Compile g # es) = g # compiled_graphs es"
| "compiled_graphs (_ # es) = compiled_graphs es"

text \<open>
  A call resolves to the cache key \<open>hw\<close> when it passes the argument checks (\<open>c\<close> is the
  unet's \<^verbatim>\<open>in_channels\<close>), asks for the compiled unet, and its \<^verbatim>\<open>(height, width)\<close> is \<open>hw\<close>.
\<close>

definition resolves_to :: "int \<Rightarrow> call_args \<Rightarrow> shape \<Rightarrow> bool" where
  "resolves_to c a hw \<longleftrightarrow>
     (case batch_size a of
        None \<Rightarrow> False
      | Some b \<Rightarrow>
          height a mod 8 = 0 \<and> width a mod 8 = 0
          \<and> (case latents a of None \<Rightarrow> True | Some sh \<Rightarrow> sh = latents_shape c a b)
          \<and> compile_unet a \<and> (height a, width a) = hw)"

text \<open>
  A call with a list of \<open>n\<close> prompts at the given height and width and the defaults of
  \<^verbatim>\<open>__call__\<close> for the rest: \<^verbatim>\<open>guidance_scale=7.5\<close>, \<^verbatim>\<open>latents=None\<close>,
  \<^verbatim>\<open>compile_unet=True\<close>, \<^verbatim>\<open>unrolled_timesteps=False\<close>.
\<close>

definition txt2img :: "nat \<Rightarrow> int \<Rightarrow> int \<Rightarrow> call_args" where
  "txt2img n h w =
     \<lparr>prompt = PromptList n, height = h, width = w, guidance_scale = 15 / 2, latents = None,
      compile_unet = True, unrolled_timesteps = False\<rparr>"

text \<open>The dict key of a call: the source writes \<^verbatim>\<open>(height, width)\<close>.\<close>

definition cache_key :: "call_args \<Rightarrow> shape" where
  "cache_key a = (height a, width a)"

text \<open>
  The entries of the dict are in the order of their times, no time is later than the
  pipeline's clock, and no key occurs twice (the last is true of every dict).
\<close>

definition recency_ordered :: "pipeline \<Rightarrow> bool" where
  "recency_ordered s \<longleftrightarrow>
     sorted_wrt (<) (map lru_time (unet_graphs s))
     \<and> (\<forall>e \<in> set (unet_graphs s). lru_time e \<le> unet_graphs_lru_cache_time s)
     \<and> distinct (map fst (unet_graphs s))"

text \<open>
  The shape signature of the specification, computed as the source computes the tensors
  the unet graph is compiled and called with: the latents of shape \<^verbatim>\<open>latents_shape\<close>,
  doubled along the batch axis under classifier free guidance (inside the graph when the
  timesteps are unrolled), and the text embeddings, doubled likewise.
\<close>

definition do_classifier_free_guidance :: "call_args \<Rightarrow> bool" where
  "do_classifier_free_guidance a \<longleftrightarrow> guidance_scale a > 1"

definition shape_signature :: "pipeline \<Rightarrow> call_args \<Rightarrow> int list list option" where
  "shape_signature s a =
     (case batch_size a of
        None \<Rightarrow> None
      | Some b \<Rightarrow>
          (let n = (if do_classifier_free_guidance a then 2 * b else b)
           in Some [[if unrolled_timesteps a then b else n,
                     in_channels s, height a div 8, width a div 8],
                    [n, model_max_length s, hidden_size s]]))"

text \<open>
  Object identities in the dict: no key twice, no graph object under two keys, and every
  cached graph was created before now.
\<close>

definition graphs_wf :: "pipeline \<Rightarrow> bool" where
  "graphs_wf s \<longleftrightarrow>
     distinct (map fst (unet_graphs s))
     \<and> distinct (map (\<lambda>e. graph_id (snd (snd e))) (unet_graphs s))
     \<and> (\<forall>e \<in> set (unet_graphs s). graph_id (snd (snd e)) < graphs_created s)"

text \<open>Every graph in the dict has run its warmup call at some point of the trace.\<close>

definition cached_warmed :: "pipeline \<Rightarrow> bool" where
  "cached_warmed s \<longleftrightarrow> (\<forall>e \<in> set (unet_graphs s). Warmup (snd (snd e)) \<in> set (trace s))"

section \<open>The deployable module\<close>

text \<open>
  Source: \<^verbatim>\<open>src/onediff/infer_compiler/oneflow/deployable_module.py\<close>, class
  \<^verbatim>\<open>OneflowDeployableModule\<close>. The graph object of a module is what \<^verbatim>\<open>get_oneflow_graph\<close>
  returns; of it the class reads the number of blocks (\<^verbatim>\<open>len(graph._blocks)\<close>) and the
  device of the first state tensor (\<^verbatim>\<open>next(graph._state()).device\<close>). A graph is built by
  its first call.
\<close>

datatype device = Cpu | Cuda nat

record oneflow_graph =
  graph_size :: int
  graph_dynamic :: bool
  graph_debug :: "int option"
  blocks :: nat
  states :: "device list"      \<comment> \<open>the devices of the tensors \<^verbatim>\<open>graph._state()\<close> yields, in order\<close>
  built :: bool

text \<open>
  The fields of the module: \<^verbatim>\<open>_deployable_module_use_graph\<close>,
  \<^verbatim>\<open>_deployable_module_enable_dynamic\<close>, the three keys of the dict
  \<^verbatim>\<open>_deployable_module_options\<close> the class reads (a key that is absent is \<open>None\<close>),
  \<^verbatim>\<open>_deployable_module_dpl_graph\<close>, \<^verbatim>\<open>_load_graph_first_run\<close>, and of the dual module
  \<^verbatim>\<open>_deployable_module_model\<close>: the device it is on, how many state tensors it has, and
  whether its \<^verbatim>\<open>oneflow_module\<close> is there. \<open>compile_attempts\<close> counts the calls that
  had to build the graph.
\<close>

record deployable_module =
  use_graph :: bool
  enable_dynamic :: bool
  options_size :: "int option"
  options_debug :: "int option"
  options_graph_file :: "string option"
  dpl_graph :: "oneflow_graph option"
  load_graph_first_run :: bool
  module_device :: device
  module_states :: nat
  has_oneflow_module :: bool
  compile_attempts :: nat

text \<open>
  The helper \<^verbatim>\<open>get_oneflow_graph\<close> is not among the sources. It is taken to return a
  graph object that is not built yet, with one block (the module) and the module's state
  tensors, on the module's device.
\<close>

definition get_oneflow_graph :: "deployable_module \<Rightarrow> int \<Rightarrow> bool \<Rightarrow> oneflow_graph" where
  "get_oneflow_graph m sz dynamic =
     \<lparr>graph_size = sz, graph_dynamic = dynamic, graph_debug = None, blocks = 1,
      states = replicate (module_states m) (module_device m), built = False\<rparr>"

text \<open>\<^verbatim>\<open>get_graph\<close>; \<open>debug_mode\<close> is \<^verbatim>\<open>transform_mgr.debug_mode\<close>.\<close>

definition get_graph :: "bool \<Rightarrow> deployable_module \<Rightarrow> oneflow_graph \<times> deployable_module" where
  "get_graph debug_mode m =
     (case dpl_graph m of
        Some g \<Rightarrow> (g, m)
      | None \<Rightarrow>
          (let sz = (case options_size m of Some n \<Rightarrow> n | None \<Rightarrow> 9);
               g0 = get_oneflow_graph m sz (enable_dynamic m);
               g1 = (if debug_mode then g0\<lparr>graph_debug := Some 0\<rparr> else g0);
               g2 = (case options_debug m of Some d \<Rightarrow> g1\<lparr>graph_debug := Some d\<rparr> | None \<Rightarrow> g1)
           in (g2, m\<lparr>dpl_graph := Some g2\<rparr>)))"

text \<open>
  \<^verbatim>\<open>self._deployable_module_model.to(*args, **kwargs)\<close>: the dual module moves to the
  device the arguments name, if they name one. \<open>target\<close> is what \<^verbatim>\<open>parse_device(args,
  kwargs)\<close> returns.
\<close>

definition model_to :: "device option \<Rightarrow> deployable_module \<Rightarrow> deployable_module" where
  "model_to target m = (case target of None \<Rightarrow> m | Some d \<Rightarrow> m\<lparr>module_device := d\<rparr>)"

text \<open>
  Modelled from the spec: \<^verbatim>\<open>check_device\<close>, of \<^verbatim>\<open>utils/param_utils.py\<close>, is not among
  the sources. The specification permits the transfer when the target device equals the
  graph's bound device.
\<close>

definition check_device :: "device \<Rightarrow> device \<Rightarrow> bool" where
  "check_device current_device target_device \<longleftrightarrow> current_device = target_device"

text \<open>
  \<^verbatim>\<open>to\<close>. The result is the exception raised, if any, and the module afterwards; the
  module is untouched when the method raises.
\<close>

definition deployable_to ::
  "device option \<Rightarrow> deployable_module \<Rightarrow> error option \<times> deployable_module" where
  "deployable_to target m =
     (case dpl_graph m of
        None \<Rightarrow> (None, model_to target m)
      | Some g \<Rightarrow>
          (case target of
             Some target_device \<Rightarrow>
               if 0 < blocks g then
                 (case states g of
                    [] \<Rightarrow> (Some StopIteration, m)
                  | current_device # _ \<Rightarrow>
                      if \<not> check_device current_device target_device
                      then (Some RuntimeError, m)
                      else (None, model_to target m))
               else (None, model_to target m)
           | None \<Rightarrow> (None, model_to target m)))"

text \<open>\<^verbatim>\<open>get_graph_file\<close>, \<^verbatim>\<open>_clear_old_graph\<close> and \<^verbatim>\<open>set_graph_file\<close>.\<close>

definition get_graph_file :: "deployable_module \<Rightarrow> string option" where
  "get_graph_file m = options_graph_file m"

definition clear_old_graph :: "deployable_module \<Rightarrow> deployable_module" where
  "clear_old_graph m =
     m\<lparr>load_graph_first_run := True, dpl_graph := None, has_oneflow_module := False\<rparr>"

definition set_graph_file :: "string \<Rightarrow> deployable_module \<Rightarrow> deployable_module" where
  "set_graph_file file_path m =
     (let old_file_path = get_graph_file m in
      if file_path \<noteq> [] \<and> old_file_path = Some file_path then m
      else clear_old_graph (m\<lparr>options_graph_file := Some file_path\<rparr>))"

text \<open>
  The body of \<^verbatim>\<open>__call__\<close>, under its decorators. With \<^verbatim>\<open>use_graph\<close> it gets the graph
  and calls it; the first call of a graph builds it, which the backend lets succeed
  (\<open>compile_ok\<close>) or fail. The body catches nothing.
\<close>

datatype call_output = GraphOutput | EagerOutput

definition call_graph ::
  "bool \<Rightarrow> oneflow_graph \<Rightarrow> deployable_module \<Rightarrow> (error + call_output) \<times> deployable_module" where
  "call_graph compile_ok g m =
     (if built g then (Inr GraphOutput, m)
      else if compile_ok
      then (Inr GraphOutput,
            m\<lparr>dpl_graph := Some (g\<lparr>built := True\<rparr>), compile_attempts := Suc (compile_attempts m)\<rparr>)
      else (Inl CompilationFailed, m\<lparr>compile_attempts := Suc (compile_attempts m)\<rparr>))"

definition call_body ::
  "bool \<Rightarrow> bool \<Rightarrow> deployable_module \<Rightarrow> (error + call_output) \<times> deployable_module" where
  "call_body debug_mode compile_ok m =
     (if use_graph m then
        (let (dpl_graph, m1) = get_graph debug_mode m in call_graph compile_ok dpl_graph m1)
      else (Inr EagerOutput, m))"

text \<open>
  Modelled from the spec: the decorator \<^verbatim>\<open>handle_deployable_exception\<close>, of
  \<^verbatim>\<open>oneflow/utils.py\<close>, is not among the sources. The specification: on
  \<open>CompilationFailed\<close> the failure is logged and the call is executed eagerly, without
  moving to \<open>READY\<close>; the cache is left unmodified. The other two decorators
  (\<^verbatim>\<open>input_output_processor\<close>, \<^verbatim>\<open>graph_file_management\<close>) are not among the sources
  either and the specification gives them no part in this.
\<close>

definition handle_deployable_exception ::
  "(deployable_module \<Rightarrow> (error + call_output) \<times> deployable_module) \<Rightarrow>
   deployable_module \<Rightarrow> (error + call_output) \<times> deployable_module" where
  "handle_deployable_exception func m =
     (case func m of
        (Inl CompilationFailed, m') \<Rightarrow> (Inr EagerOutput, m'\<lparr>dpl_graph := dpl_graph m\<rparr>)
      | (r, m') \<Rightarrow> (r, m'))"

definition deployable_call ::
  "bool \<Rightarrow> bool \<Rightarrow> deployable_module \<Rightarrow> (error + call_output) \<times> deployable_module" where
  "deployable_call debug_mode compile_ok m =
     handle_deployable_exception (call_body debug_mode compile_ok) m"

text \<open>
  The states of the specification's state machine, read off the module: \<open>READY\<close> when it
  holds a built graph, \<open>UNBUILT\<close> otherwise.
\<close>

datatype module_state = UNBUILT | READY

definition state_of :: "deployable_module \<Rightarrow> module_state" where
  "state_of m = (case dpl_graph m of None \<Rightarrow> UNBUILT | Some g \<Rightarrow> if built g then READY else UNBUILT)"

section \<open>The sd-webui script\<close>

text \<open>
  Source: \<^verbatim>\<open>onediff_sd_webui_extensions/scripts/onediff.py\<close>. The objects a unet variable
  can hold: \<^verbatim>\<open>None\<close>, a model of the host (of class \<^verbatim>\<open>UNetModel\<close> of \<^verbatim>\<open>ldm\<close>, of
  \<^verbatim>\<open>sgm\<close>, or of another class), and what \<^verbatim>\<open>compile_ldm_unet\<close>, \<^verbatim>\<open>compile_sgm_unet\<close>
  and \<^verbatim>\<open>quantize_model\<close> make of one.
\<close>

datatype unet =
    NoneObject
  | UNetModelLDM nat
  | UNetModelSGM nat
  | OtherModel nat
  | CompiledLDM unet
  | CompiledSGM unet
  | Quantized unet

text \<open>
  \<^verbatim>\<open>compile_unet\<close> of the script (the name \<open>compile_unet\<close> is taken by the pipeline's
  argument): a model of neither class is returned as it is, with a warning.
\<close>

definition script_compile_unet :: "unet \<Rightarrow> bool \<Rightarrow> unet" where
  "script_compile_unet unet_model quantization =
     (let compiled =
            (case unet_model of
               UNetModelLDM n \<Rightarrow> CompiledLDM unet_model
             | UNetModelSGM n \<Rightarrow> CompiledSGM unet_model
             | _ \<Rightarrow> unet_model)
      in if quantization then Quantized compiled else compiled)"

record sd_type =
  is_sdxl :: bool
  is_sd2 :: bool
  is_sd1 :: bool
  is_ssd :: bool

text \<open>
  What a target tensor of the compiled graph holds: what the graph put there, or the
  parameter of the given name of a model, permuted by \<^verbatim>\<open>permute(0, 2, 3, 1)\<close>.
\<close>

datatype tensor = GraphVariable nat | Permuted unet string

text \<open>
  The module globals \<^verbatim>\<open>compiled_unet\<close> and \<^verbatim>\<open>compiled_ckpt_name\<close>, the attributes
  \<^verbatim>\<open>current_type\<close> and \<^verbatim>\<open>convname_dict\<close> of the script, and of the host
  \<^verbatim>\<open>shared.opts.sd_model_checkpoint\<close>, the four flags of \<^verbatim>\<open>shared.sd_model\<close> and
  \<^verbatim>\<open>shared.sd_model.model.diffusion_model\<close>. \<open>compile_unet_calls\<close> counts the calls of
  \<^verbatim>\<open>compile_unet\<close>.
\<close>

record webui =
  compiled_unet :: unet
  compiled_ckpt_name :: "string option"
  current_type :: "sd_type option"
  convname_dict :: "(string \<times> tensor option) list option"
  sd_model_checkpoint :: string
  sd_model_type :: sd_type
  diffusion_model :: unet
  compile_unet_calls :: nat

text \<open>\<^verbatim>\<open>UnetCompileCtx\<close>: \<^verbatim>\<open>__enter__\<close> returns the model it saved; \<^verbatim>\<open>__exit__\<close> returns \<^verbatim>\<open>False\<close>.\<close>

definition UnetCompileCtx_enter :: "webui \<Rightarrow> unet \<times> webui" where
  "UnetCompileCtx_enter s = (diffusion_model s, s\<lparr>diffusion_model := compiled_unet s\<rparr>)"

definition UnetCompileCtx_exit :: "unet \<Rightarrow> webui \<Rightarrow> bool \<times> webui" where
  "UnetCompileCtx_exit original_model s = (False, s\<lparr>diffusion_model := original_model\<rparr>)"

text \<open>
  The \<^verbatim>\<open>with\<close> statement on this context manager. Everything nested in it (the other
  context managers of \<^verbatim>\<open>Script.run\<close> and \<^verbatim>\<open>process_images\<close>) is the body, any function
  of the state that returns a value or raises. \<^verbatim>\<open>__exit__\<close> runs on both ways out and
  an exception is suppressed only if it returns true.
\<close>

definition with_UnetCompileCtx ::
  "(webui \<Rightarrow> (error + 'p) \<times> webui) \<Rightarrow> webui \<Rightarrow> (error + 'p option) \<times> webui" where
  "with_UnetCompileCtx body s =
     (let (original_model, s1) = UnetCompileCtx_enter s;
          (r, s2) = body s1;
          (suppress, s3) = UnetCompileCtx_exit original_model s2
      in (case r of
            Inl e \<Rightarrow> if suppress then Inr None else Inl e
          | Inr v \<Rightarrow> Inr (Some v), s3))"

text \<open>
  \<^verbatim>\<open>check_model_structure_change\<close>: the loop over the four recorded flags stops at the
  first that differs.
\<close>

definition check_model_structure_change :: "webui \<Rightarrow> bool \<times> webui" where
  "check_model_structure_change s =
     (let model = sd_model_type s;
          is_changed =
            (case current_type s of
               None \<Rightarrow> True
             | Some t \<Rightarrow>
                 \<not> (is_sdxl t = is_sdxl model \<and> is_sd2 t = is_sd2 model
                    \<and> is_sd1 t = is_sd1 model \<and> is_ssd t = is_ssd model))
      in (is_changed, if is_changed then s\<lparr>current_type := Some model\<rparr> else s))"

text \<open>
  The loop \<^verbatim>\<open>for k in self.convname_dict\<close> over a dict: each target tensor receives
  the permuted parameter of the model; at the first target that is \<^verbatim>\<open>None\<close> the loop
  sets \<^verbatim>\<open>need_recompile\<close> and breaks. It returns the dict and \<^verbatim>\<open>need_recompile\<close>.
  (\<^verbatim>\<open>get_parameter\<close> is taken to find every name.)
\<close>

fun copy_conv_weights ::
  "unet \<Rightarrow> (string \<times> tensor option) list \<Rightarrow> (string \<times> tensor option) list \<times> bool" where
  "copy_conv_weights original [] = ([], False)"
| "copy_conv_weights original ((k, None) # rest) = ((k, None) # rest, True)"
| "copy_conv_weights original ((k, Some target_tensor) # rest) =
     (let (rest', need_recompile) = copy_conv_weights original rest
      in ((k, Some (Permuted original k)) # rest', need_recompile))"

datatype quantization_arg = QuantizationBool bool | QuantizationHtml

text \<open>
  \<^verbatim>\<open>Script.run\<close>, in the three parts it has. The first decides \<^verbatim>\<open>need_recompile\<close>:
  from the checkpoint name (with the suffix \<^verbatim>\<open>_quantized\<close> under quantization), the
  structure check and, when the name changed and nothing asks for a compilation, the
  copy of the conv weights. Iterating \<^verbatim>\<open>self.convname_dict\<close> when it is \<^verbatim>\<open>None\<close>
  raises \<^verbatim>\<open>TypeError\<close>.
\<close>

definition ckpt_name :: "bool \<Rightarrow> webui \<Rightarrow> string" where
  "ckpt_name quantization s =
     (if quantization then sd_model_checkpoint s @ ''_quantized'' else sd_model_checkpoint s)"

definition run_need_recompile :: "bool \<Rightarrow> webui \<Rightarrow> (error + bool) \<times> webui" where
  "run_need_recompile quantization s =
     (let original_diffusion_model = diffusion_model s;
          model_changed = (Some (ckpt_name quantization s) \<noteq> compiled_ckpt_name s);
          (model_structure_changed, s1) = check_model_structure_change s;
          need_recompile = ((quantization \<and> model_changed) \<or> model_structure_changed)
      in if \<not> need_recompile \<and> model_changed then
           (case convname_dict s1 of
              None \<Rightarrow> (Inl TypeError, s1)
            | Some d \<Rightarrow>
                (let (d', r) = copy_conv_weights original_diffusion_model d
                 in (Inr r, s1\<lparr>convname_dict := Some d'\<rparr>)))
         else (Inr need_recompile, s1))"

text \<open>The second part, under \<^verbatim>\<open>if need_recompile:\<close>.\<close>

definition run_recompile :: "bool \<Rightarrow> unet \<Rightarrow> string \<Rightarrow> webui \<Rightarrow> webui" where
  "run_recompile quantization original_diffusion_model name s =
     s\<lparr>compiled_unet := script_compile_unet original_diffusion_model quantization,
       compiled_ckpt_name := Some name,
       convname_dict := None,
       compile_unet_calls := Suc (compile_unet_calls s)\<rparr>"

text \<open>
  The third part: the \<^verbatim>\<open>with\<close> statement and the table of conv names.
  \<open>process_images\<close> stands for the body of the \<^verbatim>\<open>with\<close> statement and
  \<open>runtime_table\<close> for the dict the last lines build from the runtime variable states
  of the compiled graph.
\<close>

definition run_process ::
  "bool \<Rightarrow> (webui \<Rightarrow> (error + 'p) \<times> webui) \<Rightarrow> (string \<times> tensor option) list \<Rightarrow>
   webui \<Rightarrow> (error + 'p) \<times> webui" where
  "run_process quantization process_images runtime_table s =
     (let (r, s1) = with_UnetCompileCtx process_images s
      in case r of
           Inl e \<Rightarrow> (Inl e, s1)
         | Inr proc \<Rightarrow>
             (let s2 = (if \<not> quantization \<and> convname_dict s1 = None
                        then s1\<lparr>convname_dict := Some runtime_table\<rparr> else s1)
              in (case proc of None \<Rightarrow> Inl UnboundLocalError | Some v \<Rightarrow> Inr v, s2)))"

text \<open>\<^verbatim>\<open>if isinstance(quantization, str): quantization = False\<close>\<close>

definition quantization_flag :: "quantization_arg \<Rightarrow> bool" where
  "quantization_flag quantization_arg =
     (case quantization_arg of QuantizationHtml \<Rightarrow> False | QuantizationBool b \<Rightarrow> b)"

definition script_run ::
  "quantization_arg \<Rightarrow> (webui \<Rightarrow> (error + 'p) \<times> webui) \<Rightarrow> (string \<times> tensor option) list \<Rightarrow>
   webui \<Rightarrow> (error + 'p) \<times> webui" where
  "script_run quantization_arg process_images runtime_table s =
     (let quantization = quantization_flag quantization_arg;
          original_diffusion_model = diffusion_model s
      in case run_need_recompile quantization s of
           (Inl e, s1) \<Rightarrow> (Inl e, s1)
         | (Inr need_recompile, s1) \<Rightarrow>
             run_process quantization process_images runtime_table
               (if need_recompile
                then run_recompile quantization original_diffusion_model
                       (ckpt_name quantization s) s1
                else s1))"

text \<open>A \<^verbatim>\<open>process_images\<close> that returns and leaves the state of the script alone.\<close>

definition process_images_returns :: "webui \<Rightarrow> (error + unit) \<times> webui" where
  "process_images_returns s = (Inr (), s)"

text \<open>The state when the script is loaded, on a host with the given checkpoint and model.\<close>

definition init_webui :: "string \<Rightarrow> sd_type \<Rightarrow> unet \<Rightarrow> webui" where
  "init_webui ckpt ty model =
     \<lparr>compiled_unet = NoneObject, compiled_ckpt_name = None, current_type = None,
      convname_dict = None, sd_model_checkpoint = ckpt, sd_model_type = ty,
      diffusion_model = model, compile_unet_calls = 0\<rparr>"

text \<open>
  When \<^verbatim>\<open>Script.run\<close> compiles: the structure flags differ from those recorded (or none
  is recorded), or quantization is on and the checkpoint name differs from the one
  compiled, or the name differs and the table of conv names has a target that is
  \<^verbatim>\<open>None\<close>.
\<close>

definition recompile_condition :: "bool \<Rightarrow> webui \<Rightarrow> bool" where
  "recompile_condition quantization s \<longleftrightarrow>
     current_type s \<noteq> Some (sd_model_type s)
     \<or> (quantization \<and> Some (ckpt_name quantization s) \<noteq> compiled_ckpt_name s)
     \<or> (Some (ckpt_name quantization s) \<noteq> compiled_ckpt_name s
        \<and> (\<exists>d k. convname_dict s = Some d \<and> (k, None) \<in> set d))"

section \<open>Properties of the unet graph cache\<close>

text \<open>The equations that evaluate a call on concrete arguments.\<close>

lemmas run_simps =
  pipeline_call_def txt2img_def init_pipeline_def batch_size_def latents_shape_def
  compile_unet_block_def evict_lru.simps new_graph_def lru_time_def resolves_to_def
  set_unet_graphs_cache_size_def cache_key_def Let_def

lemma py_min_in: "py_min f best xs \<in> set (best # xs)"
  by (induction xs arbitrary: best) auto

lemma length_delete_less: "k \<in> fst ` set d \<Longrightarrow> length (AList.delete k d) < length d"
proof (induction d)
  case Nil
  then show ?case by simp
next
  case (Cons p ps)
  show ?case
  proof (cases "fst p = k")
    case True
    then show ?thesis by (simp add: less_Suc_eq_le AList.length_delete_le)
  next
    case False
    with Cons.prems have "k \<in> fst ` set ps" by auto
    with Cons.IH False show ?thesis by simp
  qed
qed

lemma compiled_graphs_append:
  "compiled_graphs (xs @ ys) = compiled_graphs xs @ compiled_graphs ys"
  by (induction xs rule: compiled_graphs.induct) auto

lemma compiled_graphs_Evict: "compiled_graphs (map Evict dels) = []"
  by (induction dels) auto

lemma evict_lru_fits: "\<not> c \<le> int (length d) \<Longrightarrow> evict_lru c d = (None, [], d)"
  by (simp add: evict_lru.simps)

lemma evict_lru_empty: "c \<le> 0 \<Longrightarrow> evict_lru c [] = (Some ValueError, [], [])"
  by (simp add: evict_lru.simps)

lemma evict_lru_step:
  "c \<le> int (length (e # es)) \<Longrightarrow>
   evict_lru c (e # es) =
     (case evict_lru c (AList.delete (fst (py_min lru_time e es)) (e # es)) of
        (err, dels, d') \<Rightarrow> (err, fst (py_min lru_time e es) # dels, d'))"
  by (subst evict_lru.simps) (simp add: Let_def del: AList.delete_simps)

lemma py_min_key_in: "fst (py_min f e es) \<in> fst ` set (e # es)"
  using py_min_in [of f e es] by (metis imageI)

lemma evict_lru_ok: "1 \<le> c \<Longrightarrow> fst (evict_lru c d) = None"
proof (induction "length d" arbitrary: d rule: less_induct)
  case less
  show ?case
  proof (cases "c \<le> int (length d)")
    case False
    then show ?thesis by (simp add: evict_lru_fits)
  next
    case True
    with less.prems obtain e es where d: "d = e # es" by (cases d) auto
    let ?k = "fst (py_min lru_time e es)"
    have "length (AList.delete ?k d) < length d"
      unfolding d by (rule length_delete_less) (rule py_min_key_in)
    then have "fst (evict_lru c (AList.delete ?k d)) = None"
      using less by blast
    then show ?thesis
      using True unfolding d
      by (auto simp: evict_lru_step split: prod.splits simp del: AList.delete_simps)
  qed
qed


lemma block_frame:
  assumes "compile_unet_block be hw u s = (r, s')"
  shows "unet_graphs_lru_cache_time s' = unet_graphs_lru_cache_time s + 1"
    and "unet_graphs_cache_size s' = unet_graphs_cache_size s"
    and "in_channels s' = in_channels s"
proof -
  obtain err dels d' where
    "evict_lru (unet_graphs_cache_size s) (unet_graphs s) = (err, dels, d')"
    using prod_cases3 by blast
  with assms show "unet_graphs_lru_cache_time s' = unet_graphs_lru_cache_time s + 1"
    and "unet_graphs_cache_size s' = unet_graphs_cache_size s"
    and "in_channels s' = in_channels s"
    by (cases "map_of (unet_graphs s) hw"; cases err;
        auto simp: compile_unet_block_def Let_def split: if_splits)+
qed

lemma block_evict_raises:
  assumes "map_of (unet_graphs s) hw = None"
      and "evict_lru (unet_graphs_cache_size s) (unet_graphs s) = (Some e, dels, d')"
      and "compile_unet_block be hw u s = (r, s')"
  shows "r = Inl e" and "unet_graphs s' = d'" and "trace s' = trace s @ map Evict dels"
    and "graphs_created s' = graphs_created s"
  using assms by (auto simp: compile_unet_block_def Let_def)

lemma block_compile_raises:
  assumes "map_of (unet_graphs s) hw = None"
      and "evict_lru (unet_graphs_cache_size s) (unet_graphs s) = (None, dels, d')"
      and "compile_unet_block CompileFails hw u s = (r, s')"
  shows "r = Inl CompileRaised" and "unet_graphs s' = d'"
    and "trace s' = trace s @ map Evict dels @ [Compile (new_graph u s)]"
    and "graphs_created s' = Suc (graphs_created s)"
  using assms by (auto simp: compile_unet_block_def Let_def new_graph_def)

lemma block_warmup_raises:
  assumes "map_of (unet_graphs s) hw = None"
      and "evict_lru (unet_graphs_cache_size s) (unet_graphs s) = (None, dels, d')"
      and "compile_unet_block WarmupFails hw u s = (r, s')"
  shows "r = Inl WarmupRaised" and "unet_graphs s' = d'"
    and "trace s' = trace s @ map Evict dels @ [Compile (new_graph u s)]"
    and "graphs_created s' = Suc (graphs_created s)"
  using assms by (auto simp: compile_unet_block_def Let_def new_graph_def)

lemma block_miss_served:
  assumes "map_of (unet_graphs s) hw = None"
      and "evict_lru (unet_graphs_cache_size s) (unet_graphs s) = (None, dels, d')"
      and "compile_unet_block BackendOk hw u s = (r, s')"
  shows "r = Inr (new_graph u s)"
    and "unet_graphs s' = AList.update hw (unet_graphs_lru_cache_time s + 1, new_graph u s) d'"
    and "trace s' = trace s @ map Evict dels
                      @ [Compile (new_graph u s), Warmup (new_graph u s), Insert hw (new_graph u s)]"
    and "graphs_created s' = Suc (graphs_created s)"
  using assms by (auto simp: compile_unet_block_def Let_def new_graph_def)

lemma block_hit_proj:
  assumes "map_of (unet_graphs s) hw = Some (t, g)"
      and "compile_unet_block be hw u s = (r, s')"
  shows "r = Inr g"
    and "unet_graphs s' = AList.update hw (unet_graphs_lru_cache_time s + 1, g) (unet_graphs s)"
    and "trace s' = trace s"
    and "graphs_created s' = graphs_created s"
  using assms by (auto simp: compile_unet_block_def Let_def)

lemma block_cases [consumes 1, case_names hit evict_raises compile_raises warmup_raises miss]:
  assumes "compile_unet_block be hw u s = (r, s')"
  obtains
    (hit) t g where "map_of (unet_graphs s) hw = Some (t, g)"
  | (evict_raises) e dels d' where "map_of (unet_graphs s) hw = None"
      and "evict_lru (unet_graphs_cache_size s) (unet_graphs s) = (Some e, dels, d')"
  | (compile_raises) dels d' where "map_of (unet_graphs s) hw = None"
      and "evict_lru (unet_graphs_cache_size s) (unet_graphs s) = (None, dels, d')"
      and "be = CompileFails"
  | (warmup_raises) dels d' where "map_of (unet_graphs s) hw = None"
      and "evict_lru (unet_graphs_cache_size s) (unet_graphs s) = (None, dels, d')"
      and "be = WarmupFails"
  | (miss) dels d' where "map_of (unet_graphs s) hw = None"
      and "evict_lru (unet_graphs_cache_size s) (unet_graphs s) = (None, dels, d')"
      and "be = BackendOk"
proof (cases "map_of (unet_graphs s) hw")
  case (Some v)
  then show ?thesis using hit by (cases v) auto
next
  case None
  obtain err dels d' where
    ev: "evict_lru (unet_graphs_cache_size s) (unet_graphs s) = (err, dels, d')"
    using prod_cases3 by blast
  show ?thesis
  proof (cases err)
    case (Some e)
    with None ev show ?thesis using evict_raises by blast
  next
    case err: None
    with None ev show ?thesis
      using compile_raises warmup_raises miss by (cases be) blast+
  qed
qed

lemma block_served_cached:
  assumes "compile_unet_block be hw u s = (Inr g, s')"
  shows "map_of (unet_graphs s') hw = Some (unet_graphs_lru_cache_time s', g)"
  using assms
proof (cases rule: block_cases)
  case (hit t g')
  from block_hit_proj [OF hit assms] block_frame(1) [OF assms]
  show ?thesis by (simp add: AList.update_conv')
next
  case (evict_raises e dels d')
  from block_evict_raises(1) [OF evict_raises assms] show ?thesis by simp
next
  case (compile_raises dels d')
  from block_compile_raises(1) [OF compile_raises(1,2) assms [unfolded compile_raises(3)]]
  show ?thesis by simp
next
  case (warmup_raises dels d')
  from block_warmup_raises(1) [OF warmup_raises(1,2) assms [unfolded warmup_raises(3)]]
  show ?thesis by simp
next
  case (miss dels d')
  from block_miss_served(1,2) [OF miss(1,2) assms [unfolded miss(3)]] block_frame(1) [OF assms]
  show ?thesis by (simp add: AList.update_conv')
qed

lemma block_served_compiles:
  assumes "compile_unet_block be hw u s = (Inr g, s')"
  shows "compiled_graphs (trace s') = compiled_graphs (trace s)
         \<or> compiled_graphs (trace s') = compiled_graphs (trace s) @ [g]"
  using assms
proof (cases rule: block_cases)
  case (hit t g')
  from block_hit_proj [OF hit assms] show ?thesis by simp
next
  case (evict_raises e dels d')
  from block_evict_raises(1) [OF evict_raises assms] show ?thesis by simp
next
  case (compile_raises dels d')
  from block_compile_raises(1) [OF compile_raises(1,2) assms [unfolded compile_raises(3)]]
  show ?thesis by simp
next
  case (warmup_raises dels d')
  from block_warmup_raises(1) [OF warmup_raises(1,2) assms [unfolded warmup_raises(3)]]
  show ?thesis by simp
next
  case (miss dels d')
  from block_miss_served(1,3) [OF miss(1,2) assms [unfolded miss(3)]]
  show ?thesis by (simp add: compiled_graphs_append compiled_graphs_Evict)
qed

lemma resolves_toD:
  assumes "resolves_to (in_channels s) a hw"
  shows "pipeline_call be a s =
           (case compile_unet_block be hw (unrolled_timesteps a) s of
              (Inl e, s') \<Rightarrow> (Inl e, s')
            | (Inr g, s') \<Rightarrow> (Inr (Some g), s'\<lparr>trace := trace s' @ [Denoise g]\<rparr>))"
  using assms
  by (auto simp: resolves_to_def pipeline_call_def split: option.splits)

lemma call_servedD:
  assumes "resolves_to (in_channels s) a hw" and "pipeline_call be a s = (Inr (Some g), s')"
  obtains s0 where "compile_unet_block be hw (unrolled_timesteps a) s = (Inr g, s0)"
    and "s' = s0\<lparr>trace := trace s0 @ [Denoise g]\<rparr>"
  using assms by (auto simp: resolves_toD split: prod.splits sum.splits)

lemma call_hit:
  assumes "resolves_to (in_channels s) a hw" and "map_of (unet_graphs s) hw = Some (t, g)"
  shows "\<exists>s'. pipeline_call be a s = (Inr (Some g), s')
           \<and> map_of (unet_graphs s') hw = Some (unet_graphs_lru_cache_time s', g)
           \<and> in_channels s' = in_channels s
           \<and> compiled_graphs (trace s') = compiled_graphs (trace s)"
proof -
  obtain r s0 where b: "compile_unet_block be hw (unrolled_timesteps a) s = (r, s0)"
    by (cases "compile_unet_block be hw (unrolled_timesteps a) s") blast
  note h = block_hit_proj [OF assms(2) b] and f = block_frame [OF b]
  have "pipeline_call be a s = (Inr (Some g), s0\<lparr>trace := trace s0 @ [Denoise g]\<rparr>)"
    using assms(1) b h(1) by (simp add: resolves_toD)
  moreover have "map_of (unet_graphs s0) hw = Some (unet_graphs_lru_cache_time s0, g)"
    using h(2) f(1) by (simp add: AList.update_conv')
  ultimately show ?thesis
    using h(3) f(3) by (simp add: compiled_graphs_append)
qed

lemma run_calls_hits:
  assumes "\<forall>c \<in> set cs. resolves_to (in_channels s) (snd c) hw"
      and "map_of (unet_graphs s) hw = Some (t, g)"
  shows "fst (run_calls cs s) = map (\<lambda>c. Inr (Some g)) cs
         \<and> compiled_graphs (trace (snd (run_calls cs s))) = compiled_graphs (trace s)"
  using assms
proof (induction cs arbitrary: s t)
  case Nil
  then show ?case by simp
next
  case (Cons c cs)
  from Cons.prems obtain s1 where c: "pipeline_call (fst c) (snd c) s = (Inr (Some g), s1)"
    and m: "map_of (unet_graphs s1) hw = Some (unet_graphs_lru_cache_time s1, g)"
    and i: "in_channels s1 = in_channels s"
    and t: "compiled_graphs (trace s1) = compiled_graphs (trace s)"
    using call_hit [of s "snd c" hw t g "fst c"] by auto
  have "fst (run_calls cs s1) = map (\<lambda>c. Inr (Some g)) cs
         \<and> compiled_graphs (trace (snd (run_calls cs s1))) = compiled_graphs (trace s1)"
    using Cons.prems i by (intro Cons.IH [OF _ m]) simp
  then show ?case
    using c t by (auto split: prod.splits)
qed

lemma block_ok_served:
  assumes "1 \<le> unet_graphs_cache_size s"
  shows "\<exists>g s'. compile_unet_block BackendOk hw u s = (Inr g, s')"
proof -
  obtain r s' where b: "compile_unet_block BackendOk hw u s = (r, s')"
    by (cases "compile_unet_block BackendOk hw u s") blast
  then show ?thesis
  proof (cases rule: block_cases)
    case (hit t g)
    from block_hit_proj(1) [OF hit b] b show ?thesis by blast
  next
    case (evict_raises e dels d')
    with evict_lru_ok [OF assms, of "unet_graphs s"] show ?thesis by simp
  next
    case (miss dels d')
    from block_miss_served(1) [OF miss(1,2) b] b show ?thesis by blast
  qed simp_all
qed

subsection \<open>One compilation per cache key\<close>

text \<open>
  Claim C1. Take calls that all resolve to the same cache key \<open>hw\<close>: a first call \<open>a\<close>
  and any later calls \<open>cs\<close>, from any state of the pipeline and whatever the backend does
  in the later calls. If the first call is served by the graph \<open>g\<close>, every later call is
  served by the same graph object \<open>g\<close>, the later calls never call the compiler, and the
  first call called it at most once, on \<open>g\<close> itself. With a cache size of at least 1 and
  a compiler that does not raise, the first call is served.
\<close>

theorem same_key_compiled_once:
  assumes "resolves_to (in_channels s) a hw"
      and "\<forall>c \<in> set cs. resolves_to (in_channels s) (snd c) hw"
  shows "(\<forall>g s1. pipeline_call be a s = (Inr (Some g), s1) \<longrightarrow>
            fst (run_calls cs s1) = map (\<lambda>c. Inr (Some g)) cs
            \<and> compiled_graphs (trace (snd (run_calls cs s1))) = compiled_graphs (trace s1)
            \<and> (compiled_graphs (trace s1) = compiled_graphs (trace s)
               \<or> compiled_graphs (trace s1) = compiled_graphs (trace s) @ [g]))
         \<and> (1 \<le> unet_graphs_cache_size s \<and> be = BackendOk \<longrightarrow>
              (\<exists>g s1. pipeline_call be a s = (Inr (Some g), s1)))"
proof (intro conjI allI impI)
  fix g s1
  assume served: "pipeline_call be a s = (Inr (Some g), s1)"
  from assms(1) served obtain s0
    where b: "compile_unet_block be hw (unrolled_timesteps a) s = (Inr g, s0)"
      and s1: "s1 = s0\<lparr>trace := trace s0 @ [Denoise g]\<rparr>"
    by (rule call_servedD)
  have m: "map_of (unet_graphs s1) hw = Some (unet_graphs_lru_cache_time s1, g)"
    using block_served_cached [OF b] s1 by simp
  have "\<forall>c \<in> set cs. resolves_to (in_channels s1) (snd c) hw"
    using assms(2) block_frame(3) [OF b] s1 by simp
  from run_calls_hits [OF this m]
  show "fst (run_calls cs s1) = map (\<lambda>c. Inr (Some g)) cs"
    and "compiled_graphs (trace (snd (run_calls cs s1))) = compiled_graphs (trace s1)"
    by simp_all
  show "compiled_graphs (trace s1) = compiled_graphs (trace s)
        \<or> compiled_graphs (trace s1) = compiled_graphs (trace s) @ [g]"
    using block_served_compiles [OF b] s1 by (simp add: compiled_graphs_append)
next
  assume "1 \<le> unet_graphs_cache_size s \<and> be = BackendOk"
  then show "\<exists>g s1. pipeline_call be a s = (Inr (Some g), s1)"
    using block_ok_served [of s hw "unrolled_timesteps a"] assms(1)
    by (auto simp: resolves_toD)
qed

theorem same_key_compiled_once_witness:
  "resolves_to (in_channels (init_pipeline 4 77 768)) (txt2img 1 512 512) (512, 512)
   \<and> resolves_to (in_channels (init_pipeline 4 77 768)) (txt2img 2 512 512) (512, 512)
   \<and> fst (pipeline_call BackendOk (txt2img 1 512 512) (init_pipeline 4 77 768))
       = Inr (Some (Graph 0 UNetGraph))
   \<and> fst (run_calls [(BackendOk, txt2img 1 512 512), (WarmupFails, txt2img 2 512 512)]
            (snd (pipeline_call BackendOk (txt2img 1 512 512) (init_pipeline 4 77 768))))
       = [Inr (Some (Graph 0 UNetGraph)), Inr (Some (Graph 0 UNetGraph))]
   \<and> compiled_graphs (trace (snd (run_calls
            [(BackendOk, txt2img 1 512 512), (WarmupFails, txt2img 2 512 512)]
            (snd (pipeline_call BackendOk (txt2img 1 512 512) (init_pipeline 4 77 768))))))
       = [Graph 0 UNetGraph]"
proof -
  let ?s = "init_pipeline 4 77 768" and ?a = "txt2img 1 512 512"
  let ?cs = "[(BackendOk, txt2img 1 512 512), (WarmupFails, txt2img 2 512 512)]"
  let ?s1 = "snd (pipeline_call BackendOk ?a ?s)"
  have h1: "resolves_to (in_channels ?s) ?a (512, 512)"
    by (simp add: run_simps)
  have h2: "\<forall>c \<in> set ?cs. resolves_to (in_channels ?s) (snd c) (512, 512)"
    by (simp add: run_simps)
  have f: "fst (pipeline_call BackendOk ?a ?s) = Inr (Some (Graph 0 UNetGraph))"
    and t: "compiled_graphs (trace ?s1) = [Graph 0 UNetGraph]"
    by (simp_all add: run_simps)
  have c: "pipeline_call BackendOk ?a ?s = (Inr (Some (Graph 0 UNetGraph)), ?s1)"
    using f by (metis prod.collapse)
  note r = same_key_compiled_once [OF h1 h2, of BackendOk, THEN conjunct1, rule_format, OF c]
  have r1: "fst (run_calls ?cs ?s1) = [Inr (Some (Graph 0 UNetGraph)), Inr (Some (Graph 0 UNetGraph))]"
    using r by simp
  have r2: "compiled_graphs (trace (snd (run_calls ?cs ?s1))) = [Graph 0 UNetGraph]"
    using r t by simp
  have h3: "resolves_to (in_channels ?s) (txt2img 2 512 512) (512, 512)"
    using h2 by simp
  show ?thesis
    by (intro conjI h1 h3 f r1 r2)
qed

lemma py_min_acc:
  "(py_min f best xs = best \<and> (\<forall>x \<in> set xs. f best \<le> f x))
   \<or> (\<exists>pre post. xs = pre @ py_min f best xs # post \<and> f (py_min f best xs) < f best
         \<and> (\<forall>x \<in> set pre. f (py_min f best xs) < f x)
         \<and> (\<forall>x \<in> set post. f (py_min f best xs) \<le> f x))"
proof (induction xs arbitrary: best)
  case Nil
  then show ?case by simp
next
  case (Cons x xs)
  show ?case
  proof (cases "f x < f best")
    case True
    let ?m = "py_min f x xs"
    have m: "py_min f best (x # xs) = ?m" using True by simp
    from Cons.IH [of x] show ?thesis
    proof
      assume a: "?m = x \<and> (\<forall>y \<in> set xs. f x \<le> f y)"
      then have "x # xs = [] @ ?m # xs \<and> f ?m < f best
                 \<and> (\<forall>y \<in> set []. f ?m < f y) \<and> (\<forall>y \<in> set xs. f ?m \<le> f y)"
        using True by simp
      then show ?thesis unfolding m by blast
    next
      assume "\<exists>pre post. xs = pre @ ?m # post \<and> f ?m < f x
               \<and> (\<forall>y \<in> set pre. f ?m < f y) \<and> (\<forall>y \<in> set post. f ?m \<le> f y)"
      then obtain pre post where p: "xs = pre @ ?m # post" "f ?m < f x"
        "\<forall>y \<in> set pre. f ?m < f y" "\<forall>y \<in> set post. f ?m \<le> f y" by blast
      then have "x # xs = (x # pre) @ ?m # post \<and> f ?m < f best
                 \<and> (\<forall>y \<in> set (x # pre). f ?m < f y) \<and> (\<forall>y \<in> set post. f ?m \<le> f y)"
        using True by simp
      then show ?thesis unfolding m by blast
    qed
  next
    case False
    let ?m = "py_min f best xs"
    have m: "py_min f best (x # xs) = ?m" using False by simp
    from Cons.IH [of best] show ?thesis
    proof
      assume "?m = best \<and> (\<forall>y \<in> set xs. f best \<le> f y)"
      then show ?thesis unfolding m using False by simp
    next
      assume "\<exists>pre post. xs = pre @ ?m # post \<and> f ?m < f best
               \<and> (\<forall>y \<in> set pre. f ?m < f y) \<and> (\<forall>y \<in> set post. f ?m \<le> f y)"
      then obtain pre post where p: "xs = pre @ ?m # post" "f ?m < f best"
        "\<forall>y \<in> set pre. f ?m < f y" "\<forall>y \<in> set post. f ?m \<le> f y" by blast
      then have "x # xs = (x # pre) @ ?m # post \<and> f ?m < f best
                 \<and> (\<forall>y \<in> set (x # pre). f ?m < f y) \<and> (\<forall>y \<in> set post. f ?m \<le> f y)"
        using False by simp
      then show ?thesis unfolding m by blast
    qed
  qed
qed

lemma py_min_first_minimal:
  "\<exists>pre post. best # xs = pre @ py_min f best xs # post
     \<and> (\<forall>x \<in> set pre. f (py_min f best xs) < f x)
     \<and> (\<forall>x \<in> set post. f (py_min f best xs) \<le> f x)"
  using py_min_acc [of f best xs]
proof
  assume "py_min f best xs = best \<and> (\<forall>x \<in> set xs. f best \<le> f x)"
  then have "best # xs = [] @ py_min f best xs # xs
     \<and> (\<forall>x \<in> set []. f (py_min f best xs) < f x)
     \<and> (\<forall>x \<in> set xs. f (py_min f best xs) \<le> f x)" by simp
  then show ?thesis by blast
next
  let ?m = "py_min f best xs"
  assume "\<exists>pre post. xs = pre @ ?m # post \<and> f ?m < f best
               \<and> (\<forall>y \<in> set pre. f ?m < f y) \<and> (\<forall>y \<in> set post. f ?m \<le> f y)"
  then obtain pre post where p: "xs = pre @ ?m # post" "f ?m < f best"
        "\<forall>y \<in> set pre. f ?m < f y" "\<forall>y \<in> set post. f ?m \<le> f y" by blast
  then have "best # xs = (best # pre) @ ?m # post
     \<and> (\<forall>x \<in> set (best # pre). f ?m < f x) \<and> (\<forall>x \<in> set post. f ?m \<le> f x)" by simp
  then show ?thesis by blast
qed

lemma py_min_sorted:
  "sorted_wrt (<) (map f (best # xs)) \<Longrightarrow> py_min f best xs = best"
  by (induction xs) (auto simp: not_less order.strict_implies_order)

lemma update_append: "k \<notin> fst ` set d \<Longrightarrow> AList.update k v d = d @ [(k, v)]"
  by (induction d) auto

lemma evict_lru_sorted_full:
  assumes "sorted_wrt (<) (map lru_time d)" and "distinct (map fst d)"
      and "int (length d) = c" and "1 \<le> c"
  shows "evict_lru c d = (None, [fst (hd d)], tl d)"
proof -
  from assms obtain e es where d: "d = e # es" by (cases d) auto
  have m: "py_min lru_time e es = e"
    using assms(1) unfolding d by (rule py_min_sorted)
  have del: "AList.delete (fst e) (e # es) = es"
    using assms(2) unfolding d by simp
  have "evict_lru c es = (None, [], es)"
    using assms(3) unfolding d by (intro evict_lru_fits) simp
  then show ?thesis
    using assms(3) unfolding d
    by (simp add: evict_lru_step m del del: AList.delete_simps)
qed


lemma evict_lru_ordered:
  assumes "recency_ordered s" and "unet_graphs_cache_size s = int N" and "1 \<le> N"
      and "length (unet_graphs s) \<le> N"
  shows "\<exists>dels. evict_lru (unet_graphs_cache_size s) (unet_graphs s) =
           (None, dels, if length (unet_graphs s) = N then tl (unet_graphs s) else unet_graphs s)"
proof (cases "length (unet_graphs s) = N")
  case True
  then show ?thesis
    using assms evict_lru_sorted_full [of "unet_graphs s" "int N"]
    by (simp add: recency_ordered_def)
next
  case False
  then show ?thesis
    using assms evict_lru_fits [of "int N" "unet_graphs s"] by simp
qed

lemma block_miss_new_key:
  assumes inv: "recency_ordered s" and c: "unet_graphs_cache_size s = int N" and N: "1 \<le> N"
      and len: "length (unet_graphs s) \<le> N"
      and new: "hw \<notin> fst ` set (unet_graphs s)"
      and b: "compile_unet_block BackendOk hw u s = (r, s')"
  shows "r = Inr (new_graph u s)"
    and "map fst (unet_graphs s') =
           (if length (unet_graphs s) = N then tl (map fst (unet_graphs s))
            else map fst (unet_graphs s)) @ [hw]"
    and "recency_ordered s'"
proof -
  let ?d = "unet_graphs s"
  let ?d' = "if length ?d = N then tl ?d else ?d"
  let ?t = "unet_graphs_lru_cache_time s + 1"
  have none: "map_of ?d hw = None"
    using new by (simp add: map_of_eq_None_iff)
  obtain dels where ev: "evict_lru (unet_graphs_cache_size s) ?d = (None, dels, ?d')"
    using evict_lru_ordered [OF inv c N len] by blast
  note m = block_miss_served [OF none ev b]
  have sub: "set ?d' \<subseteq> set ?d"
    by (cases ?d) auto
  then have new': "hw \<notin> fst ` set ?d'"
    using new by blast
  have d': "unet_graphs s' = ?d' @ [(hw, (?t, new_graph u s))]"
    using m(2) update_append [OF new'] by simp
  show "r = Inr (new_graph u s)" by (rule m(1))
  show "map fst (unet_graphs s') =
           (if length ?d = N then tl (map fst ?d) else map fst ?d) @ [hw]"
    unfolding d' by (simp add: map_tl)
  have sorted: "sorted_wrt (<) (map lru_time ?d')"
    using inv by (cases ?d) (auto simp: recency_ordered_def)
  have dist: "distinct (map fst ?d')"
    using inv by (cases ?d) (auto simp: recency_ordered_def)
  have le: "\<forall>e \<in> set ?d'. lru_time e \<le> unet_graphs_lru_cache_time s"
    using inv sub by (auto simp: recency_ordered_def)
  have "sorted_wrt (<) (map lru_time (?d' @ [(hw, (?t, new_graph u s))]))"
    using sorted le by (auto simp: sorted_wrt_append lru_time_def)
  moreover have "distinct (map fst (?d' @ [(hw, (?t, new_graph u s))]))"
    using dist new' by auto
  moreover have "\<forall>e \<in> set (?d' @ [(hw, (?t, new_graph u s))]). lru_time e \<le> ?t"
  proof
    fix e assume "e \<in> set (?d' @ [(hw, (?t, new_graph u s))])"
    then have "e \<in> set ?d' \<or> e = (hw, (?t, new_graph u s))" by auto
    then show "lru_time e \<le> ?t"
    proof
      assume "e \<in> set ?d'"
      with le have "lru_time e \<le> unet_graphs_lru_cache_time s" by blast
      then show ?thesis by simp
    next
      assume "e = (hw, (?t, new_graph u s))"
      then show ?thesis by (simp add: lru_time_def)
    qed
  qed
  ultimately show "recency_ordered s'"
    unfolding recency_ordered_def d' block_frame(1) [OF b] by blast
qed


lemma call_miss_new_key:
  assumes inv: "recency_ordered s" and c: "unet_graphs_cache_size s = int N" and N: "1 \<le> N"
      and len: "length (unet_graphs s) \<le> N"
      and new: "cache_key a \<notin> fst ` set (unet_graphs s)"
      and res: "resolves_to (in_channels s) a (cache_key a)"
  shows "\<exists>g s'. pipeline_call BackendOk a s = (Inr (Some g), s')
           \<and> map fst (unet_graphs s') =
                 (if length (unet_graphs s) = N then tl (map fst (unet_graphs s))
                  else map fst (unet_graphs s)) @ [cache_key a]
           \<and> recency_ordered s' \<and> unet_graphs_cache_size s' = int N
           \<and> in_channels s' = in_channels s"
proof -
  obtain r s0 where b: "compile_unet_block BackendOk (cache_key a) (unrolled_timesteps a) s = (r, s0)"
    by (cases "compile_unet_block BackendOk (cache_key a) (unrolled_timesteps a) s") blast
  note m = block_miss_new_key [OF inv c N len new b] and f = block_frame [OF b]
  let ?s' = "s0\<lparr>trace := trace s0 @ [Denoise (new_graph (unrolled_timesteps a) s)]\<rparr>"
  have "pipeline_call BackendOk a s = (Inr (Some (new_graph (unrolled_timesteps a) s)), ?s')"
    using res b m(1) by (simp add: resolves_toD)
  moreover have "recency_ordered ?s'"
    using m(3) by (simp add: recency_ordered_def)
  ultimately show ?thesis
    using m(2) f c by simp
qed

lemma run_distinct_requests:
  assumes "recency_ordered s" and "unet_graphs_cache_size s = int N" and "1 \<le> N"
      and "length (unet_graphs s) \<le> N"
      and "distinct (map fst (unet_graphs s) @ map (\<lambda>c. cache_key (snd c)) cs)"
      and "\<forall>c \<in> set cs. fst c = BackendOk
             \<and> resolves_to (in_channels s) (snd c) (cache_key (snd c))"
  shows "map fst (unet_graphs (snd (run_calls cs s))) =
           drop (length (unet_graphs s) + length cs - N)
             (map fst (unet_graphs s) @ map (\<lambda>c. cache_key (snd c)) cs)
         \<and> (\<forall>r \<in> set (fst (run_calls cs s)). \<exists>g. r = Inr (Some g))"
  using assms
proof (induction cs arbitrary: s)
  case Nil
  then show ?case by simp
next
  case (Cons c cs)
  let ?ks = "map fst (unet_graphs s)"
  have be: "fst c = BackendOk" and res: "resolves_to (in_channels s) (snd c) (cache_key (snd c))"
    using Cons.prems(6) by simp_all
  have new: "cache_key (snd c) \<notin> fst ` set (unet_graphs s)"
    using Cons.prems(5) by auto
  from call_miss_new_key [OF Cons.prems(1-4) new res]
  obtain g s1 where call: "pipeline_call BackendOk (snd c) s = (Inr (Some g), s1)"
    and keys: "map fst (unet_graphs s1) =
                 (if length (unet_graphs s) = N then tl ?ks else ?ks) @ [cache_key (snd c)]"
    and inv1: "recency_ordered s1" and c1: "unet_graphs_cache_size s1 = int N"
    and i1: "in_channels s1 = in_channels s"
    by blast
  have len_keys: "length (map fst (unet_graphs s1)) = length (unet_graphs s1)" by simp
  have len1: "length (unet_graphs s1) \<le> N"
    using keys Cons.prems(3,4) unfolding len_keys [symmetric] by (auto split: if_splits)
  have dist1: "distinct (map fst (unet_graphs s1) @ map (\<lambda>c. cache_key (snd c)) cs)"
    using Cons.prems(5) unfolding keys by (cases ?ks) (auto split: if_splits)
  have res1: "\<forall>c \<in> set cs. fst c = BackendOk
               \<and> resolves_to (in_channels s1) (snd c) (cache_key (snd c))"
    using Cons.prems(6) i1 by simp
  note IH = Cons.IH [OF inv1 c1 Cons.prems(3) len1 dist1 res1]
  have run: "run_calls (c # cs) s = (Inr (Some g) # fst (run_calls cs s1), snd (run_calls cs s1))"
    using call be by (simp add: split_def Let_def)
  have "drop (length (unet_graphs s1) + length cs - N)
          (map fst (unet_graphs s1) @ map (\<lambda>c. cache_key (snd c)) cs)
        = drop (length (unet_graphs s) + length (c # cs) - N)
            (?ks @ map (\<lambda>c. cache_key (snd c)) (c # cs))"
  proof (cases "length (unet_graphs s) = N")
    case True
    then obtain k ks' where ks: "?ks = k # ks'" and lk: "length ks' = N - 1"
      using Cons.prems(3) by (cases ?ks) auto
    have l1: "length (unet_graphs s1) = N"
      using keys True ks lk Cons.prems(3) unfolding len_keys [symmetric] by simp
    show ?thesis
      unfolding keys l1 True ks using True by (simp add: Suc_diff_le)
  next
    case False
    have l1: "length (unet_graphs s1) = Suc (length (unet_graphs s))"
      using keys False unfolding len_keys [symmetric] by simp
    show ?thesis
      unfolding keys l1 using False by simp
  qed
  then show ?case
    using IH unfolding run by auto
qed


subsection \<open>Least recently used eviction\<close>

text \<open>
  Claim C2. With a cache size \<open>N\<close> of at least 1 and an empty cache, \<open>N + 1\<close> calls of
  pairwise distinct keys are all served, and after the last one the cache holds exactly
  the keys of all calls but the first, in their order: the first key, whose entry has the
  smallest time, is absent and all others remain. And in every iteration of the eviction
  loop the entry deleted is the first, in insertion order, of those with the smallest
  time: every entry before it has a strictly larger time, every entry after it a time at
  least as large; the loop then continues on the dict without that entry.
\<close>

theorem lru_eviction:
  "(1 \<le> N \<and> unet_graphs s = [] \<and> unet_graphs_cache_size s = int N
      \<and> length cs = N + 1 \<and> distinct (map (\<lambda>c. cache_key (snd c)) cs)
      \<and> (\<forall>c \<in> set cs. fst c = BackendOk
             \<and> resolves_to (in_channels s) (snd c) (cache_key (snd c)))
    \<longrightarrow> (\<forall>r \<in> set (fst (run_calls cs s)). \<exists>g. r = Inr (Some g))
        \<and> map fst (unet_graphs (snd (run_calls cs s))) = tl (map (\<lambda>c. cache_key (snd c)) cs)
        \<and> cache_key (snd (hd cs)) \<notin> fst ` set (unet_graphs (snd (run_calls cs s)))
        \<and> (\<forall>c \<in> set (tl cs).
              cache_key (snd c) \<in> fst ` set (unet_graphs (snd (run_calls cs s)))))
   \<and> (cache_size \<le> int (length (e # es)) \<longrightarrow>
        (\<exists>m pre post err dels d'.
            evict_lru cache_size (e # es) = (err, fst m # dels, d')
            \<and> evict_lru cache_size (AList.delete (fst m) (e # es)) = (err, dels, d')
            \<and> e # es = pre @ m # post
            \<and> (\<forall>x \<in> set pre. lru_time m < lru_time x)
            \<and> (\<forall>x \<in> set post. lru_time m \<le> lru_time x)))"
proof (intro conjI impI)
  assume a: "1 \<le> N \<and> unet_graphs s = [] \<and> unet_graphs_cache_size s = int N
      \<and> length cs = N + 1 \<and> distinct (map (\<lambda>c. cache_key (snd c)) cs)
      \<and> (\<forall>c \<in> set cs. fst c = BackendOk
             \<and> resolves_to (in_channels s) (snd c) (cache_key (snd c)))"
  let ?ks = "map (\<lambda>c. cache_key (snd c)) cs"
  let ?d = "unet_graphs (snd (run_calls cs s))"
  have inv: "recency_ordered s" using a by (simp add: recency_ordered_def)
  have "map fst ?d = drop (length (unet_graphs s) + length cs - N) (map fst (unet_graphs s) @ ?ks)
        \<and> (\<forall>r \<in> set (fst (run_calls cs s)). \<exists>g. r = Inr (Some g))"
    using a by (intro run_distinct_requests [OF inv]) simp_all
  then have keys: "map fst ?d = tl ?ks"
    and served: "\<forall>r \<in> set (fst (run_calls cs s)). \<exists>g. r = Inr (Some g)"
    using a by (simp_all add: drop_Suc)
  from a obtain c cs' where cs: "cs = c # cs'" by (cases cs) auto
  have set_d: "fst ` set ?d = set (tl ?ks)"
    using keys by (metis set_map)
  show "\<forall>r \<in> set (fst (run_calls cs s)). \<exists>g. r = Inr (Some g)" by (rule served)
  show "map fst ?d = tl ?ks" by (rule keys)
  have "cache_key (snd (hd cs)) \<notin> set (tl ?ks)"
    using a unfolding cs by auto
  then show "cache_key (snd (hd cs)) \<notin> fst ` set ?d"
    unfolding set_d .
  have "\<forall>c \<in> set (tl cs). cache_key (snd c) \<in> set (tl ?ks)"
    unfolding cs by auto
  then show "\<forall>c \<in> set (tl cs). cache_key (snd c) \<in> fst ` set ?d"
    unfolding set_d .
next
  assume le: "cache_size \<le> int (length (e # es))"
  let ?m = "py_min lru_time e es"
  obtain err dels d' where
    r: "evict_lru cache_size (AList.delete (fst ?m) (e # es)) = (err, dels, d')"
    using prod_cases3 by blast
  have "evict_lru cache_size (e # es) = (err, fst ?m # dels, d')"
    using le r by (simp add: evict_lru_step del: AList.delete_simps)
  moreover obtain pre post where "e # es = pre @ ?m # post"
    "\<forall>x \<in> set pre. lru_time ?m < lru_time x" "\<forall>x \<in> set post. lru_time ?m \<le> lru_time x"
    using py_min_first_minimal [of e es lru_time] by blast
  ultimately show "\<exists>m pre post err dels d'.
            evict_lru cache_size (e # es) = (err, fst m # dels, d')
            \<and> evict_lru cache_size (AList.delete (fst m) (e # es)) = (err, dels, d')
            \<and> e # es = pre @ m # post
            \<and> (\<forall>x \<in> set pre. lru_time m < lru_time x)
            \<and> (\<forall>x \<in> set post. lru_time m \<le> lru_time x)"
    using r by blast
qed


theorem lru_eviction_witness:
  "(1::nat) \<le> 2
   \<and> unet_graphs (set_unet_graphs_cache_size 2 (init_pipeline 4 77 768)) = []
   \<and> unet_graphs_cache_size (set_unet_graphs_cache_size 2 (init_pipeline 4 77 768)) = int 2
   \<and> distinct [(512, 512), (768, 768), (1024, 1024 :: int)]
   \<and> map fst (unet_graphs (snd (run_calls
          [(BackendOk, txt2img 1 512 512), (BackendOk, txt2img 1 768 768),
           (BackendOk, txt2img 1 1024 1024)]
          (set_unet_graphs_cache_size 2 (init_pipeline 4 77 768)))))
       = [(768, 768), (1024, 1024)]
   \<and> (\<exists>m pre post err dels d'.
         evict_lru 3 [((512, 512), 5, Graph 0 UNetGraph), ((768, 768), 3, Graph 1 UNetGraph),
                      ((640, 640), 3, Graph 2 UNetGraph)] = (err, fst m # dels, d')
         \<and> [((512, 512), 5, Graph 0 UNetGraph), ((768, 768), 3, Graph 1 UNetGraph),
             ((640, 640), 3, Graph 2 UNetGraph)] = pre @ m # post
         \<and> (\<forall>x \<in> set pre. lru_time m < lru_time x)
         \<and> (\<forall>x \<in> set post. lru_time m \<le> lru_time x))
   \<and> evict_lru 3 [((512, 512), 5, Graph 0 UNetGraph), ((768, 768), 3, Graph 1 UNetGraph),
                    ((640, 640), 3, Graph 2 UNetGraph)]
       = (None, [(768, 768)],
          [((512, 512), 5, Graph 0 UNetGraph), ((640, 640), 3, Graph 2 UNetGraph)])"
proof -
  let ?s = "set_unet_graphs_cache_size 2 (init_pipeline 4 77 768)"
  let ?cs = "[(BackendOk, txt2img 1 512 512), (BackendOk, txt2img 1 768 768),
              (BackendOk, txt2img 1 1024 1024)]"
  let ?e = "((512, 512), 5, Graph 0 UNetGraph) :: shape \<times> int \<times> graph"
  let ?es = "[((768, 768), 3, Graph 1 UNetGraph), ((640, 640), 3, Graph 2 UNetGraph)]
               :: unet_graphs_dict"
  have h: "1 \<le> (2::nat) \<and> unet_graphs ?s = [] \<and> unet_graphs_cache_size ?s = int 2
      \<and> length ?cs = 2 + 1 \<and> distinct (map (\<lambda>c. cache_key (snd c)) ?cs)
      \<and> (\<forall>c \<in> set ?cs. fst c = BackendOk
             \<and> resolves_to (in_channels ?s) (snd c) (cache_key (snd c)))"
    by (simp add: run_simps)
  have g: "(3::int) \<le> int (length (?e # ?es))" by simp
  note t = lru_eviction [of 2 ?s ?cs 3 ?e ?es]
  from t [THEN conjunct1, rule_format, OF h]
  have r1: "map fst (unet_graphs (snd (run_calls ?cs ?s))) = [(768, 768), (1024, 1024)]"
    by (simp add: cache_key_def txt2img_def)
  from t [THEN conjunct2, rule_format, OF g]
  have r2: "\<exists>m pre post err dels d'.
         evict_lru 3 (?e # ?es) = (err, fst m # dels, d')
         \<and> ?e # ?es = pre @ m # post
         \<and> (\<forall>x \<in> set pre. lru_time m < lru_time x)
         \<and> (\<forall>x \<in> set post. lru_time m \<le> lru_time x)"
    by blast
  have r3: "evict_lru 3 (?e # ?es) = (None, [(768, 768)],
          [((512, 512), 5, Graph 0 UNetGraph), ((640, 640), 3, Graph 2 UNetGraph)])"
    by (simp add: evict_lru.simps lru_time_def)
  show ?thesis
    using h r1 r2 r3 by (simp add: set_unet_graphs_cache_size_def init_pipeline_def)
qed

lemma evict_lru_unfold:
  assumes "evict_lru c d = (err, dels, d')"
  obtains (fits) "\<not> c \<le> int (length d)" "err = None" "dels = []" "d' = d"
  | (empty) "c \<le> 0" "d = []" "err = Some ValueError" "dels = []" "d' = []"
  | (step) e es dels1 where "c \<le> int (length d)" "d = e # es"
      "dels = fst (py_min lru_time e es) # dels1"
      "evict_lru c (AList.delete (fst (py_min lru_time e es)) d) = (err, dels1, d')"
      "length (AList.delete (fst (py_min lru_time e es)) d) < length d"
proof (cases "c \<le> int (length d)")
  case False
  with assms have "err = None" "dels = []" "d' = d" by (simp_all add: evict_lru_fits)
  with False show ?thesis by (rule fits)
next
  case True
  show ?thesis
  proof (cases d)
    case Nil
    with True have c: "c \<le> 0" by simp
    with assms Nil have "err = Some ValueError" "dels = []" "d' = []"
      by (simp_all add: evict_lru_empty)
    with c Nil show ?thesis by (rule empty)
  next
    case (Cons e es)
    let ?k = "fst (py_min lru_time e es)"
    obtain err1 dels1 d1 where r: "evict_lru c (AList.delete ?k d) = (err1, dels1, d1)"
      using prod_cases3 by blast
    have "evict_lru c d = (err1, ?k # dels1, d1)"
      using True r unfolding Cons by (simp add: evict_lru_step del: AList.delete_simps)
    with assms have "err = err1" "dels = ?k # dels1" "d' = d1" by simp_all
    moreover have "length (AList.delete ?k d) < length d"
      unfolding Cons by (rule length_delete_less) (rule py_min_key_in)
    ultimately show ?thesis using step [OF True Cons, of dels1] r by blast
  qed
qed

lemma evict_lru_length:
  "evict_lru c d = (None, dels, d') \<Longrightarrow> int (length d') < c"
proof (induction "length d" arbitrary: d dels rule: less_induct)
  case less
  from less.prems show ?case
  proof (cases rule: evict_lru_unfold)
    case (step e es dels1)
    from less.hyps [OF step(5) step(4)] show ?thesis .
  qed simp_all
qed

lemma evict_lru_raises:
  "evict_lru c d = (Some e, dels, d') \<Longrightarrow> d' = [] \<and> c \<le> 0"
proof (induction "length d" arbitrary: d dels rule: less_induct)
  case less
  from less.prems show ?case
  proof (cases rule: evict_lru_unfold)
    case (step e es dels1)
    from less.hyps [OF step(5) step(4)] show ?thesis .
  qed simp_all
qed

lemma py_min_least:
  "x \<in> set (e # es) \<Longrightarrow> f (py_min f e es) \<le> f x"
  using py_min_first_minimal [of e es f] py_min_in [of f e es]
  by (metis Un_iff less_imp_le order_refl set_ConsD set_append)

lemma delete_filter: "AList.delete k d = filter (\<lambda>x. fst x \<noteq> k) d"
  by (induction d) auto

lemma evict_lru_kept:
  assumes "evict_lru c d = (err, dels, d')" and "distinct (map fst d)"
  shows "d' = filter (\<lambda>x. fst x \<notin> set dels) d
         \<and> (\<forall>x \<in> set d. fst x \<in> set dels \<longrightarrow> (\<forall>y \<in> set d'. lru_time x \<le> lru_time y))"
  using assms
proof (induction "length d" arbitrary: d dels rule: less_induct)
  case less
  from less.prems(1) show ?case
  proof (cases rule: evict_lru_unfold)
    case fits
    then show ?thesis by simp
  next
    case empty
    then show ?thesis by simp
  next
    case (step e es dels1)
    let ?m = "py_min lru_time e es"
    let ?d1 = "AList.delete (fst ?m) d"
    have dist1: "distinct (map fst ?d1)"
      using less.prems(2) by (rule AList.distinct_delete)
    note IH = less.hyps [OF step(5) step(4) dist1]
    have d1: "?d1 = filter (\<lambda>x. fst x \<noteq> fst ?m) d" by (rule delete_filter)
    have f: "d' = filter (\<lambda>x. fst x \<notin> set dels) d"
      using IH unfolding step(3) d1 by (simp add: conj_commute)
    have m_in: "?m \<in> set d" unfolding step(2) by (rule py_min_in)
    have sub: "set d' \<subseteq> set d" using f by auto
    have "lru_time x \<le> lru_time y" if x: "x \<in> set d" "fst x \<in> set dels" and y: "y \<in> set d'"
      for x y
    proof (cases "fst x = fst ?m")
      case True
      then have "x = ?m"
        using less.prems(2) x(1) m_in by (meson eq_key_imp_eq_value prod.expand
            distinct_map inj_onD)
      moreover have "y \<in> set (e # es)" using y sub step(2) by auto
      ultimately show ?thesis using py_min_least [of y e es lru_time] by simp
    next
      case False
      then have "x \<in> set ?d1" "fst x \<in> set dels1"
        using x unfolding d1 step(3) by auto
      with IH y show ?thesis by blast
    qed
    with f show ?thesis by blast
  qed
qed


lemma call_cases [consumes 1, case_names skip raised served]:
  assumes "pipeline_call be a s = (r, s')"
  obtains (skip) "s' = s" "\<not> resolves_to (in_channels s) a (cache_key a)"
      "r = Inl ValueError \<or> r = Inl UnboundLocalError \<or> r = Inr None"
  | (raised) e where "resolves_to (in_channels s) a (cache_key a)"
      "compile_unet_block be (cache_key a) (unrolled_timesteps a) s = (Inl e, s')" "r = Inl e"
  | (served) g s0 where "resolves_to (in_channels s) a (cache_key a)"
      "compile_unet_block be (cache_key a) (unrolled_timesteps a) s = (Inr g, s0)"
      "r = Inr (Some g)" "s' = s0\<lparr>trace := trace s0 @ [Denoise g]\<rparr>"
proof (cases "resolves_to (in_channels s) a (cache_key a)")
  case False
  then have "s' = s" "r = Inl ValueError \<or> r = Inl UnboundLocalError \<or> r = Inr None"
    using assms
    by (auto simp: pipeline_call_def resolves_to_def cache_key_def
        split: option.splits if_splits)
  with False show ?thesis using skip by blast
next
  case True
  obtain r0 s0 where b: "compile_unet_block be (cache_key a) (unrolled_timesteps a) s = (r0, s0)"
    by (cases "compile_unet_block be (cache_key a) (unrolled_timesteps a) s") blast
  show ?thesis
  proof (cases r0)
    case (Inl e)
    with assms b True have "r = Inl e" "s' = s0" by (simp_all add: resolves_toD)
    with b Inl True show ?thesis using raised by blast
  next
    case (Inr g)
    with assms b True have "r = Inr (Some g)" "s' = s0\<lparr>trace := trace s0 @ [Denoise g]\<rparr>"
      by (simp_all add: resolves_toD)
    with b Inr True show ?thesis using served by blast
  qed
qed

lemma update_length_present:
  "k \<in> fst ` set d \<Longrightarrow> length (AList.update k v d) = length d"
  by (induction d) auto

lemma update_length_le: "length (AList.update k v d) \<le> Suc (length d)"
  by (induction d) auto

lemma block_within_capacity:
  assumes "int (length (unet_graphs s)) \<le> unet_graphs_cache_size s"
      and b: "compile_unet_block be hw u s = (r, s')"
  shows "int (length (unet_graphs s')) \<le> unet_graphs_cache_size s'"
  using b
proof (cases rule: block_cases)
  case (hit t g)
  then have "hw \<in> fst ` set (unet_graphs s)"
    by (metis map_of_eq_None_iff option.distinct(1))
  with block_hit_proj(2) [OF hit b] block_frame(2) [OF b] assms(1)
  show ?thesis by (simp add: update_length_present)
next
  case (evict_raises e dels d')
  from evict_lru_raises [OF evict_raises(2)] block_evict_raises(2) [OF evict_raises b]
    block_frame(2) [OF b] assms(1)
  show ?thesis by simp
next
  case (compile_raises dels d')
  from evict_lru_length [OF compile_raises(2)]
    block_compile_raises(2) [OF compile_raises(1,2) b [unfolded compile_raises(3)]]
    block_frame(2) [OF b]
  show ?thesis by simp
next
  case (warmup_raises dels d')
  from evict_lru_length [OF warmup_raises(2)]
    block_warmup_raises(2) [OF warmup_raises(1,2) b [unfolded warmup_raises(3)]]
    block_frame(2) [OF b]
  show ?thesis by simp
next
  case (miss dels d')
  from evict_lru_length [OF miss(2)]
    block_miss_served(2) [OF miss(1,2) b [unfolded miss(3)]]
    block_frame(2) [OF b]
    update_length_le [of hw "(unet_graphs_lru_cache_time s + 1, new_graph u s)" d']
  show ?thesis by simp
qed

lemma length_delete_distinct:
  "distinct (map fst d) \<Longrightarrow> k \<in> fst ` set d \<Longrightarrow> Suc (length (AList.delete k d)) = length d"
proof (induction d)
  case Nil
  then show ?case by simp
next
  case (Cons p ps)
  show ?case
  proof (cases "fst p = k")
    case True
    then have "k \<notin> fst ` set ps" using Cons.prems(1) by auto
    then show ?thesis using True by simp
  next
    case False
    with Cons.prems have "k \<in> fst ` set ps" "distinct (map fst ps)" by auto
    with Cons.IH False show ?thesis by simp
  qed
qed

lemma evict_lru_count:
  assumes "evict_lru c d = (None, dels, d')" and "distinct (map fst d)"
  shows "length d' = min (length d) (nat (c - 1))"
  using assms
proof (induction "length d" arbitrary: d dels rule: less_induct)
  case less
  from less.prems(1) show ?case
  proof (cases rule: evict_lru_unfold)
    case fits
    then show ?thesis by auto
  next
    case empty
    then show ?thesis by simp
  next
    case (step e es dels1)
    let ?k = "fst (py_min lru_time e es)"
    let ?d1 = "AList.delete ?k d"
    have dist1: "distinct (map fst ?d1)"
      using less.prems(2) by (rule AList.distinct_delete)
    have IH: "length d' = min (length ?d1) (nat (c - 1))"
      using less.hyps [OF step(5) step(4) dist1] .
    have "?k \<in> fst ` set d" unfolding step(2) by (rule py_min_key_in)
    then have l1: "Suc (length ?d1) = length d"
      using less.prems(2) by (intro length_delete_distinct)
    have pos: "0 < c" using evict_lru_length [OF less.prems(1)] by simp
    show ?thesis
      using IH l1 step(1) pos by auto
  qed
qed

lemma block_miss_lru:
  assumes none: "map_of (unet_graphs s) hw = None"
      and dist: "distinct (map fst (unet_graphs s))"
      and b: "compile_unet_block be hw u s = (Inr g, s')"
  shows "int (length (unet_graphs s')) \<le> unet_graphs_cache_size s'"
    and "\<exists>dels. unet_graphs s' =
            filter (\<lambda>x. fst x \<notin> set dels) (unet_graphs s)
              @ [(hw, (unet_graphs_lru_cache_time s', g))]
          \<and> length (filter (\<lambda>x. fst x \<notin> set dels) (unet_graphs s)) =
              min (length (unet_graphs s)) (nat (unet_graphs_cache_size s - 1))
          \<and> (\<forall>x \<in> set (unet_graphs s). fst x \<in> set dels \<longrightarrow>
                (\<forall>y \<in> set (unet_graphs s). fst y \<notin> set dels \<longrightarrow> lru_time x \<le> lru_time y))"
proof -
  from b none obtain dels d' where
    ev: "evict_lru (unet_graphs_cache_size s) (unet_graphs s) = (None, dels, d')"
    and be: "be = BackendOk"
  proof (cases rule: block_cases)
    case (evict_raises e dels d')
    from block_evict_raises(1) [OF evict_raises b] show ?thesis by simp
  next
    case (compile_raises dels d')
    from block_compile_raises(1) [OF compile_raises(1,2) b [unfolded compile_raises(3)]]
    show ?thesis by simp
  next
    case (warmup_raises dels d')
    from block_warmup_raises(1) [OF warmup_raises(1,2) b [unfolded warmup_raises(3)]]
    show ?thesis by simp
  qed simp_all
  note m = block_miss_served [OF none ev b [unfolded be]] and f = block_frame [OF b]
  note k = evict_lru_kept [OF ev dist]
  have g: "g = new_graph u s" using m(1) by simp
  have "hw \<notin> fst ` set (unet_graphs s)"
    using none by (simp add: map_of_eq_None_iff)
  then have "hw \<notin> fst ` set d'" using k by auto
  then have d': "unet_graphs s' = d' @ [(hw, (unet_graphs_lru_cache_time s', g))]"
    using m(2) f(1) g by (simp add: update_append)
  show "int (length (unet_graphs s')) \<le> unet_graphs_cache_size s'"
    using evict_lru_length [OF ev] f(2) unfolding d' by simp
  have "\<forall>x \<in> set (unet_graphs s). fst x \<in> set dels \<longrightarrow>
          (\<forall>y \<in> set (unet_graphs s). fst y \<notin> set dels \<longrightarrow> lru_time x \<le> lru_time y)"
    using k by auto
  moreover have "unet_graphs s' =
            filter (\<lambda>x. fst x \<notin> set dels) (unet_graphs s)
              @ [(hw, (unet_graphs_lru_cache_time s', g))]"
    using d' k by simp
  moreover have "length (filter (\<lambda>x. fst x \<notin> set dels) (unet_graphs s)) =
              min (length (unet_graphs s)) (nat (unet_graphs_cache_size s - 1))"
    using evict_lru_count [OF ev dist] k by simp
  ultimately show "\<exists>dels. unet_graphs s' =
            filter (\<lambda>x. fst x \<notin> set dels) (unet_graphs s)
              @ [(hw, (unet_graphs_lru_cache_time s', g))]
          \<and> length (filter (\<lambda>x. fst x \<notin> set dels) (unet_graphs s)) =
              min (length (unet_graphs s)) (nat (unet_graphs_cache_size s - 1))
          \<and> (\<forall>x \<in> set (unet_graphs s). fst x \<in> set dels \<longrightarrow>
                (\<forall>y \<in> set (unet_graphs s). fst y \<notin> set dels \<longrightarrow> lru_time x \<le> lru_time y))"
    by blast
qed


subsection \<open>Changing the cache size\<close>

text \<open>
  Claim C3, as amended. \<^verbatim>\<open>set_unet_graphs_cache_size(n)\<close> records \<open>n\<close> and leaves the cached
  graphs as they are: nothing is evicted at that point. The eviction happens in the next
  call that misses: a served miss leaves at most as many entries as the cache size; the
  entries it keeps are those of the old dict outside the deleted keys, in their order and
  followed by the new entry; it keeps exactly as many of the old entries as there were or
  as the cache size less one, whichever is smaller, so it deletes no more than it must;
  and every deleted entry has a time no later than every entry kept, so those kept are the
  most recently used. And a call from a state within the cache size ends within the cache
  size, whatever its outcome.
\<close>

theorem lazy_cache_size_eviction:
  "unet_graphs (set_unet_graphs_cache_size n s) = unet_graphs s
   \<and> unet_graphs_cache_size (set_unet_graphs_cache_size n s) = n
   \<and> (pipeline_call be a s = (Inr (Some g), s')
        \<and> cache_key a \<notin> fst ` set (unet_graphs s) \<and> distinct (map fst (unet_graphs s))
      \<longrightarrow> unet_graphs_cache_size s' = unet_graphs_cache_size s
          \<and> int (length (unet_graphs s')) \<le> unet_graphs_cache_size s'
          \<and> (\<exists>dels. unet_graphs s' =
                  filter (\<lambda>x. fst x \<notin> set dels) (unet_graphs s)
                    @ [(cache_key a, (unet_graphs_lru_cache_time s', g))]
                \<and> length (filter (\<lambda>x. fst x \<notin> set dels) (unet_graphs s)) =
                    min (length (unet_graphs s)) (nat (unet_graphs_cache_size s - 1))
                \<and> (\<forall>x \<in> set (unet_graphs s). fst x \<in> set dels \<longrightarrow>
                      (\<forall>y \<in> set (unet_graphs s). fst y \<notin> set dels \<longrightarrow>
                          lru_time x \<le> lru_time y))))
   \<and> (pipeline_call be a s = (r, s'')
        \<and> int (length (unet_graphs s)) \<le> unet_graphs_cache_size s
      \<longrightarrow> int (length (unet_graphs s'')) \<le> unet_graphs_cache_size s'')"
proof (intro conjI impI)
  show "unet_graphs (set_unet_graphs_cache_size n s) = unet_graphs s"
    and "unet_graphs_cache_size (set_unet_graphs_cache_size n s) = n"
    by (simp_all add: set_unet_graphs_cache_size_def)
next
  assume a: "pipeline_call be a s = (Inr (Some g), s')
        \<and> cache_key a \<notin> fst ` set (unet_graphs s) \<and> distinct (map fst (unet_graphs s))"
  then have call: "pipeline_call be a s = (Inr (Some g), s')"
    and none: "map_of (unet_graphs s) (cache_key a) = None"
    and dist: "distinct (map fst (unet_graphs s))"
    by (simp_all add: map_of_eq_None_iff)
  from call obtain s0 where
    b: "compile_unet_block be (cache_key a) (unrolled_timesteps a) s = (Inr g, s0)"
    and s': "s' = s0\<lparr>trace := trace s0 @ [Denoise g]\<rparr>"
    by (cases rule: call_cases) auto
  note l = block_miss_lru [OF none dist b] and f = block_frame [OF b]
  show "unet_graphs_cache_size s' = unet_graphs_cache_size s"
    using f(2) s' by simp
  show "int (length (unet_graphs s')) \<le> unet_graphs_cache_size s'"
    using l(1) s' by simp
  show "\<exists>dels. unet_graphs s' =
                  filter (\<lambda>x. fst x \<notin> set dels) (unet_graphs s)
                    @ [(cache_key a, (unet_graphs_lru_cache_time s', g))]
                \<and> length (filter (\<lambda>x. fst x \<notin> set dels) (unet_graphs s)) =
                    min (length (unet_graphs s)) (nat (unet_graphs_cache_size s - 1))
                \<and> (\<forall>x \<in> set (unet_graphs s). fst x \<in> set dels \<longrightarrow>
                      (\<forall>y \<in> set (unet_graphs s). fst y \<notin> set dels \<longrightarrow>
                          lru_time x \<le> lru_time y))"
    using l(2) s' by simp
next
  assume a: "pipeline_call be a s = (r, s'')
        \<and> int (length (unet_graphs s)) \<le> unet_graphs_cache_size s"
  then have call: "pipeline_call be a s = (r, s'')"
    and le: "int (length (unet_graphs s)) \<le> unet_graphs_cache_size s" by simp_all
  from call show "int (length (unet_graphs s'')) \<le> unet_graphs_cache_size s''"
  proof (cases rule: call_cases)
    case skip
    with le show ?thesis by simp
  next
    case (raised e)
    from block_within_capacity [OF le raised(2)] show ?thesis .
  next
    case (served g s0)
    from block_within_capacity [OF le served(2)] served(4) show ?thesis by simp
  qed
qed

theorem lazy_cache_size_eviction_witness:
  "map fst (unet_graphs (set_unet_graphs_cache_size 2
      \<lparr>unet_graphs = [((512, 512), 1, Graph 0 UNetGraph), ((768, 768), 2, Graph 1 UNetGraph),
                       ((1024, 1024), 3, Graph 2 UNetGraph)],
        unet_graphs_cache_size = 3, unet_graphs_lru_cache_time = 3, in_channels = 4,
        model_max_length = 77, hidden_size = 768, graphs_created = 3, trace = []\<rparr>))
     = [(512, 512), (768, 768), (1024, 1024)]
   \<and> fst (pipeline_call BackendOk (txt2img 1 640 640) (set_unet_graphs_cache_size 2
      \<lparr>unet_graphs = [((512, 512), 1, Graph 0 UNetGraph), ((768, 768), 2, Graph 1 UNetGraph),
                       ((1024, 1024), 3, Graph 2 UNetGraph)],
        unet_graphs_cache_size = 3, unet_graphs_lru_cache_time = 3, in_channels = 4,
        model_max_length = 77, hidden_size = 768, graphs_created = 3, trace = []\<rparr>))
     = Inr (Some (Graph 3 UNetGraph))
   \<and> unet_graphs (snd (pipeline_call BackendOk (txt2img 1 640 640) (set_unet_graphs_cache_size 2
      \<lparr>unet_graphs = [((512, 512), 1, Graph 0 UNetGraph), ((768, 768), 2, Graph 1 UNetGraph),
                       ((1024, 1024), 3, Graph 2 UNetGraph)],
        unet_graphs_cache_size = 3, unet_graphs_lru_cache_time = 3, in_channels = 4,
        model_max_length = 77, hidden_size = 768, graphs_created = 3, trace = []\<rparr>)))
     = [((1024, 1024), 3, Graph 2 UNetGraph), ((640, 640), 4, Graph 3 UNetGraph)]
   \<and> int (length (unet_graphs (snd (pipeline_call BackendOk (txt2img 1 640 640)
      (set_unet_graphs_cache_size 2
      \<lparr>unet_graphs = [((512, 512), 1, Graph 0 UNetGraph), ((768, 768), 2, Graph 1 UNetGraph),
                       ((1024, 1024), 3, Graph 2 UNetGraph)],
        unet_graphs_cache_size = 3, unet_graphs_lru_cache_time = 3, in_channels = 4,
        model_max_length = 77, hidden_size = 768, graphs_created = 3, trace = []\<rparr>)))))
     \<le> 2"
proof -
  let ?s3 = "\<lparr>unet_graphs = [((512, 512), 1, Graph 0 UNetGraph), ((768, 768), 2, Graph 1 UNetGraph),
                       ((1024, 1024), 3, Graph 2 UNetGraph)],
        unet_graphs_cache_size = 3, unet_graphs_lru_cache_time = 3, in_channels = 4,
        model_max_length = 77, hidden_size = 768, graphs_created = 3, trace = []\<rparr>"
  let ?s = "set_unet_graphs_cache_size 2 ?s3"
  let ?a = "txt2img 1 640 640"
  let ?s' = "snd (pipeline_call BackendOk ?a ?s)"
  have f: "fst (pipeline_call BackendOk ?a ?s) = Inr (Some (Graph 3 UNetGraph))"
    and u: "unet_graphs ?s' =
              [((1024, 1024), 3, Graph 2 UNetGraph), ((640, 640), 4, Graph 3 UNetGraph)]"
    by (simp_all add: run_simps)
  have c: "pipeline_call BackendOk ?a ?s = (Inr (Some (Graph 3 UNetGraph)), ?s')"
    using f by (metis prod.collapse)
  have h: "pipeline_call BackendOk ?a ?s = (Inr (Some (Graph 3 UNetGraph)), ?s')
        \<and> cache_key ?a \<notin> fst ` set (unet_graphs ?s) \<and> distinct (map fst (unet_graphs ?s))"
    using c by (simp add: run_simps)
  note t = lazy_cache_size_eviction [of 2 ?s3 BackendOk ?a "Graph 3 UNetGraph" ?s']
  note t' = lazy_cache_size_eviction [of 2 ?s BackendOk ?a "Graph 3 UNetGraph" ?s']
  have k: "map fst (unet_graphs ?s) = [(512, 512), (768, 768), (1024, 1024)]"
    using t [THEN conjunct1] by simp
  have "unet_graphs_cache_size ?s = 2"
    using t [THEN conjunct2, THEN conjunct1] .
  moreover have "unet_graphs_cache_size ?s' = unet_graphs_cache_size ?s
      \<and> int (length (unet_graphs ?s')) \<le> unet_graphs_cache_size ?s'"
    using t' [THEN conjunct2, THEN conjunct2, THEN conjunct1, rule_format, OF h] by blast
  ultimately have l: "int (length (unet_graphs ?s')) \<le> 2" by simp
  show ?thesis
    by (intro conjI k f u l)
qed

text \<open>
  The claim as stated fails: with two graphs cached under a cache size of 2,
  \<^verbatim>\<open>set_unet_graphs_cache_size(1)\<close> returns with both graphs still cached, more than the
  new cache size.
\<close>

theorem set_cache_size_evicts_counterexample:
  "map fst (unet_graphs (set_unet_graphs_cache_size 1 (snd (run_calls
      [(BackendOk, txt2img 1 512 512), (BackendOk, txt2img 1 768 768)]
      (set_unet_graphs_cache_size 2 (init_pipeline 4 77 768))))))
     = [(512, 512), (768, 768)]
   \<and> unet_graphs_cache_size (set_unet_graphs_cache_size 1 (snd (run_calls
      [(BackendOk, txt2img 1 512 512), (BackendOk, txt2img 1 768 768)]
      (set_unet_graphs_cache_size 2 (init_pipeline 4 77 768))))) = 1
   \<and> \<not> int (length (unet_graphs (set_unet_graphs_cache_size 1 (snd (run_calls
      [(BackendOk, txt2img 1 512 512), (BackendOk, txt2img 1 768 768)]
      (set_unet_graphs_cache_size 2 (init_pipeline 4 77 768)))))))
       \<le> unet_graphs_cache_size (set_unet_graphs_cache_size 1 (snd (run_calls
      [(BackendOk, txt2img 1 512 512), (BackendOk, txt2img 1 768 768)]
      (set_unet_graphs_cache_size 2 (init_pipeline 4 77 768)))))"
  by (simp add: run_simps)


lemma update_same_graph:
  "map_of d hw = Some (t, g) \<Longrightarrow>
   map (\<lambda>e. snd (snd e)) (AList.update hw (t', g) d) = map (\<lambda>e. snd (snd e)) d
   \<and> map fst (AList.update hw (t', g) d) = map fst d"
  by (induction d) (auto split: if_splits)

lemma graphs_wf_filter:
  assumes "graphs_wf s" and "unet_graphs s' = filter P (unet_graphs s)"
      and "graphs_created s \<le> graphs_created s'"
  shows "graphs_wf s'"
  using assms unfolding graphs_wf_def
  by (auto simp: distinct_map_filter intro: less_le_trans)

lemma block_graphs_wf:
  assumes wf: "graphs_wf s" and b: "compile_unet_block be hw u s = (r, s')"
  shows "graphs_wf s'"
  using b
proof (cases rule: block_cases)
  case (hit t g)
  note h = block_hit_proj [OF hit b]
  have "map (\<lambda>e. graph_id (snd (snd e))) (unet_graphs s')
          = map graph_id (map (\<lambda>e. snd (snd e)) (unet_graphs s'))" by simp
  also have "\<dots> = map graph_id (map (\<lambda>e. snd (snd e)) (unet_graphs s))"
    using update_same_graph [OF hit] h(2) by simp
  finally have ids: "map (\<lambda>e. graph_id (snd (snd e))) (unet_graphs s')
          = map (\<lambda>e. graph_id (snd (snd e))) (unet_graphs s)" by simp
  have keys: "map fst (unet_graphs s') = map fst (unet_graphs s)"
    using update_same_graph [OF hit] h(2) by simp
  have img: "(\<lambda>e. graph_id (snd (snd e))) ` set (unet_graphs s')
               = (\<lambda>e. graph_id (snd (snd e))) ` set (unet_graphs s)"
    using ids by (metis set_map)
  have "\<forall>e \<in> set (unet_graphs s'). graph_id (snd (snd e)) < graphs_created s'"
  proof
    fix e assume "e \<in> set (unet_graphs s')"
    then have "graph_id (snd (snd e)) \<in> (\<lambda>e. graph_id (snd (snd e))) ` set (unet_graphs s)"
      unfolding img [symmetric] by (rule imageI)
    then obtain e0 where "e0 \<in> set (unet_graphs s)"
      "graph_id (snd (snd e)) = graph_id (snd (snd e0))" by blast
    then show "graph_id (snd (snd e)) < graphs_created s'"
      using wf unfolding h(4) graphs_wf_def by simp
  qed
  then show ?thesis
    using wf unfolding graphs_wf_def ids keys by blast
next
  case (evict_raises e dels d')
  from evict_lru_raises [OF evict_raises(2)] block_evict_raises(2) [OF evict_raises b]
  show ?thesis by (simp add: graphs_wf_def)
next
  case (compile_raises dels d')
  note r = block_compile_raises [OF compile_raises(1,2) b [unfolded compile_raises(3)]]
  have "distinct (map fst (unet_graphs s))" using wf by (simp add: graphs_wf_def)
  from evict_lru_kept [OF compile_raises(2) this] r(2,4) show ?thesis
    by (intro graphs_wf_filter [OF wf]) simp_all
next
  case (warmup_raises dels d')
  note r = block_warmup_raises [OF warmup_raises(1,2) b [unfolded warmup_raises(3)]]
  have "distinct (map fst (unet_graphs s))" using wf by (simp add: graphs_wf_def)
  from evict_lru_kept [OF warmup_raises(2) this] r(2,4) show ?thesis
    by (intro graphs_wf_filter [OF wf]) simp_all
next
  case (miss dels d')
  note r = block_miss_served [OF miss(1,2) b [unfolded miss(3)]]
  have dist: "distinct (map fst (unet_graphs s))" using wf by (simp add: graphs_wf_def)
  note k = evict_lru_kept [OF miss(2) dist]
  have d'_f: "d' = filter (\<lambda>x. fst x \<notin> set dels) (unet_graphs s)" using k by simp
  have "hw \<notin> fst ` set (unet_graphs s)"
    using miss(1) by (simp add: map_of_eq_None_iff)
  then have new: "hw \<notin> fst ` set d'" unfolding d'_f by auto
  have d': "unet_graphs s' = d' @ [(hw, (unet_graphs_lru_cache_time s + 1, new_graph u s))]"
    using r(2) update_append [OF new] by simp
  have ids: "\<forall>e \<in> set d'. graph_id (snd (snd e)) < graphs_created s"
    using wf unfolding d'_f graphs_wf_def by auto
  have "distinct (map (\<lambda>e. graph_id (snd (snd e))) d')"
    using wf unfolding d'_f graphs_wf_def by (simp add: distinct_map_filter)
  moreover have "graphs_created s \<notin> (\<lambda>e. graph_id (snd (snd e))) ` set d'"
    using ids by auto
  moreover have "distinct (map fst d')"
    using dist unfolding d'_f by (simp add: distinct_map_filter)
  ultimately show ?thesis
    using new ids unfolding graphs_wf_def d' r(4)
    by (auto simp: new_graph_def less_Suc_eq)
qed


lemma block_served_miss:
  assumes "map_of (unet_graphs s) hw = None" and b: "compile_unet_block be hw u s = (Inr g, s')"
  obtains dels d' where "evict_lru (unet_graphs_cache_size s) (unet_graphs s) = (None, dels, d')"
    and "be = BackendOk"
  using b
proof (cases rule: block_cases)
  case (hit t g)
  with assms(1) show ?thesis by simp
next
  case (evict_raises e dels d')
  from block_evict_raises(1) [OF evict_raises b] show ?thesis by simp
next
  case (compile_raises dels d')
  from block_compile_raises(1) [OF compile_raises(1,2) b [unfolded compile_raises(3)]]
  show ?thesis by simp
next
  case (warmup_raises dels d')
  from block_warmup_raises(1) [OF warmup_raises(1,2) b [unfolded warmup_raises(3)]]
  show ?thesis by simp
next
  case (miss dels d')
  then show ?thesis using that by blast
qed

lemma block_served_trace:
  assumes "map_of (unet_graphs s) hw = None" and b: "compile_unet_block be hw u s = (Inr g, s')"
  shows "g = new_graph u s"
    and "\<exists>dels. trace s' = trace s @ map Evict dels @ [Compile g, Warmup g, Insert hw g]"
proof -
  from assms obtain dels d' where
    ev: "evict_lru (unet_graphs_cache_size s) (unet_graphs s) = (None, dels, d')"
    and be: "be = BackendOk"
    by (rule block_served_miss)
  note m = block_miss_served [OF assms(1) ev b [unfolded be]]
  show g: "g = new_graph u s" using m(1) by simp
  show "\<exists>dels. trace s' = trace s @ map Evict dels @ [Compile g, Warmup g, Insert hw g]"
    using m(3) unfolding g by blast
qed

subsection \<open>What the cache key is\<close>

text \<open>
  Claim C4, as amended. The cache key is the pair \<^verbatim>\<open>(height, width)\<close> and nothing else.
  Take two consecutive calls that reach the cache, the first served by the graph \<open>g1\<close>.
  If their \<^verbatim>\<open>(height, width)\<close> are equal, the second is served by the same object
  \<open>g1\<close> and calls the compiler for nothing, whatever its batch size, guidance scale or
  backend. If they differ, the second is not served by \<open>g1\<close>; and whenever the second
  call's \<^verbatim>\<open>(height, width)\<close> is not cached and the call is served, it is served by a
  graph compiled in that call.
\<close>

theorem cache_key_is_height_width:
  assumes r1: "resolves_to (in_channels s) a1 (cache_key a1)"
      and r2: "resolves_to (in_channels s) a2 (cache_key a2)"
      and c1: "pipeline_call be1 a1 s = (Inr (Some g1), s1)"
      and c2: "pipeline_call be2 a2 s1 = (r, s2)"
  shows "(cache_key a1 = cache_key a2 \<longrightarrow>
            r = Inr (Some g1) \<and> compiled_graphs (trace s2) = compiled_graphs (trace s1))
         \<and> (cache_key a1 \<noteq> cache_key a2 \<and> graphs_wf s \<longrightarrow> r \<noteq> Inr (Some g1))
         \<and> (cache_key a2 \<notin> fst ` set (unet_graphs s1) \<and> r = Inr (Some g2) \<longrightarrow>
              compiled_graphs (trace s2) = compiled_graphs (trace s1) @ [g2])"
proof -
  from r1 c1 obtain s0 where
    b1: "compile_unet_block be1 (cache_key a1) (unrolled_timesteps a1) s = (Inr g1, s0)"
    and s1: "s1 = s0\<lparr>trace := trace s0 @ [Denoise g1]\<rparr>"
    by (rule call_servedD)
  have m1: "map_of (unet_graphs s1) (cache_key a1) = Some (unet_graphs_lru_cache_time s1, g1)"
    using block_served_cached [OF b1] s1 by simp
  have i1: "in_channels s1 = in_channels s"
    using block_frame(3) [OF b1] s1 by simp
  have r2': "resolves_to (in_channels s1) a2 (cache_key a2)"
    using r2 i1 by simp
  have same: "r = Inr (Some g1) \<and> compiled_graphs (trace s2) = compiled_graphs (trace s1)"
    if "cache_key a1 = cache_key a2"
    using call_hit [OF r2' m1 [unfolded that], of be2] c2 by auto
  have differ: "r \<noteq> Inr (Some g1)" if ne: "cache_key a1 \<noteq> cache_key a2" and wf: "graphs_wf s"
  proof
    assume r: "r = Inr (Some g1)"
    have "graphs_wf s0" using wf b1 by (rule block_graphs_wf)
    then have wf1: "graphs_wf s1" unfolding s1 by (simp add: graphs_wf_def)
    have in1: "(cache_key a1, (unet_graphs_lru_cache_time s1, g1)) \<in> set (unet_graphs s1)"
      using m1 by (rule map_of_SomeD)
    from r2' c2 [unfolded r] obtain s0' where
      b2: "compile_unet_block be2 (cache_key a2) (unrolled_timesteps a2) s1 = (Inr g1, s0')"
      by (rule call_servedD)
    show False
    proof (cases "map_of (unet_graphs s1) (cache_key a2)")
      case None
      from block_served_trace(1) [OF None b2] have "graph_id g1 = graphs_created s1"
        by (simp add: new_graph_def)
      moreover have "graph_id g1 < graphs_created s1"
        using wf1 in1 unfolding graphs_wf_def by fastforce
      ultimately show False by simp
    next
      case (Some v)
      obtain t g where v: "v = (t, g)" by (cases v)
      from block_hit_proj(1) [OF Some [unfolded v] b2] have "g = g1" by simp
      then have in2: "(cache_key a2, (t, g1)) \<in> set (unet_graphs s1)"
        using Some v by (auto dest: map_of_SomeD)
      have "inj_on (\<lambda>e. graph_id (snd (snd e))) (set (unet_graphs s1))"
        using wf1 unfolding graphs_wf_def by (simp add: distinct_map)
      from inj_onD [OF this _ in1 in2] ne show False by simp
    qed
  qed
  have fresh: "compiled_graphs (trace s2) = compiled_graphs (trace s1) @ [g2]"
    if new: "cache_key a2 \<notin> fst ` set (unet_graphs s1)" and r: "r = Inr (Some g2)"
  proof -
    have none: "map_of (unet_graphs s1) (cache_key a2) = None"
      using new by (simp add: map_of_eq_None_iff)
    from r2' c2 [unfolded r] obtain s0' where
      b2: "compile_unet_block be2 (cache_key a2) (unrolled_timesteps a2) s1 = (Inr g2, s0')"
      and s2: "s2 = s0'\<lparr>trace := trace s0' @ [Denoise g2]\<rparr>"
      by (rule call_servedD)
    from block_served_trace(2) [OF none b2] show ?thesis
      unfolding s2 by (auto simp: compiled_graphs_append compiled_graphs_Evict)
  qed
  from same differ fresh show ?thesis by blast
qed


theorem cache_key_is_height_width_witness:
  "resolves_to (in_channels (init_pipeline 4 77 768)) (txt2img 1 512 512) (512, 512)
   \<and> resolves_to (in_channels (init_pipeline 4 77 768)) (txt2img 2 512 512) (512, 512)
   \<and> resolves_to (in_channels (init_pipeline 4 77 768)) (txt2img 1 768 768) (768, 768)
   \<and> graphs_wf (init_pipeline 4 77 768)
   \<and> fst (pipeline_call BackendOk (txt2img 1 512 512) (init_pipeline 4 77 768))
       = Inr (Some (Graph 0 UNetGraph))
   \<and> fst (pipeline_call BackendOk (txt2img 2 512 512)
          (snd (pipeline_call BackendOk (txt2img 1 512 512) (init_pipeline 4 77 768))))
       = Inr (Some (Graph 0 UNetGraph))
   \<and> compiled_graphs (trace (snd (pipeline_call BackendOk (txt2img 2 512 512)
          (snd (pipeline_call BackendOk (txt2img 1 512 512) (init_pipeline 4 77 768))))))
       = [Graph 0 UNetGraph]
   \<and> fst (pipeline_call BackendOk (txt2img 1 768 768)
          (snd (pipeline_call BackendOk (txt2img 1 512 512) (init_pipeline 4 77 768))))
       = Inr (Some (Graph 1 UNetGraph))
   \<and> compiled_graphs (trace (snd (pipeline_call BackendOk (txt2img 1 768 768)
          (snd (pipeline_call BackendOk (txt2img 1 512 512) (init_pipeline 4 77 768))))))
       = [Graph 0 UNetGraph, Graph 1 UNetGraph]"
proof -
  let ?s = "init_pipeline 4 77 768"
  let ?a1 = "txt2img 1 512 512" and ?a2 = "txt2img 2 512 512" and ?a3 = "txt2img 1 768 768"
  let ?s1 = "snd (pipeline_call BackendOk ?a1 ?s)"
  let ?g0 = "Graph 0 UNetGraph" and ?g1 = "Graph 1 UNetGraph"
  have h1: "resolves_to (in_channels ?s) ?a1 (512, 512)"
    and h2: "resolves_to (in_channels ?s) ?a2 (512, 512)"
    and h3: "resolves_to (in_channels ?s) ?a3 (768, 768)"
    by (simp_all add: run_simps)
  have k: "cache_key ?a1 = (512, 512)" "cache_key ?a2 = (512, 512)" "cache_key ?a3 = (768, 768)"
    by (simp_all add: run_simps)
  have wf: "graphs_wf ?s" by (simp add: graphs_wf_def init_pipeline_def)
  have f1: "fst (pipeline_call BackendOk ?a1 ?s) = Inr (Some ?g0)"
    and t1: "compiled_graphs (trace ?s1) = [?g0]"
    and u1: "unet_graphs ?s1 = [((512, 512), 1, ?g0)]"
    by (simp_all add: run_simps)
  have c1: "pipeline_call BackendOk ?a1 ?s = (Inr (Some ?g0), ?s1)"
    using f1 by (metis prod.collapse)
  have c2: "pipeline_call BackendOk ?a2 ?s1
              = (fst (pipeline_call BackendOk ?a2 ?s1), snd (pipeline_call BackendOk ?a2 ?s1))"
    by simp
  have c3: "pipeline_call BackendOk ?a3 ?s1
              = (fst (pipeline_call BackendOk ?a3 ?s1), snd (pipeline_call BackendOk ?a3 ?s1))"
    by simp
  have h1': "resolves_to (in_channels ?s) ?a1 (cache_key ?a1)"
    and h2': "resolves_to (in_channels ?s) ?a2 (cache_key ?a2)"
    and h3': "resolves_to (in_channels ?s) ?a3 (cache_key ?a3)"
    using h1 h2 h3 unfolding k by blast+
  have eqk: "cache_key ?a1 = cache_key ?a2" unfolding k by simp
  note same = cache_key_is_height_width [OF h1' h2' c1 c2, THEN conjunct1, rule_format, OF eqk]
  have f2: "fst (pipeline_call BackendOk ?a2 ?s1) = Inr (Some ?g0)"
    and t2: "compiled_graphs (trace (snd (pipeline_call BackendOk ?a2 ?s1))) = [?g0]"
    using same t1 by simp_all
  have f3: "fst (pipeline_call BackendOk ?a3 ?s1) = Inr (Some ?g1)"
    using u1 by (simp add: run_simps)
  have new: "cache_key ?a3 \<notin> fst ` set (unet_graphs ?s1) \<and>
               fst (pipeline_call BackendOk ?a3 ?s1) = Inr (Some ?g1)"
    using f3 unfolding k u1 by simp
  note fresh = cache_key_is_height_width
      [OF h1' h3' c1 c3, of ?g1, THEN conjunct2, THEN conjunct2, rule_format, OF new]
  have t3: "compiled_graphs (trace (snd (pipeline_call BackendOk ?a3 ?s1))) = [?g0, ?g1]"
    using fresh t1 by simp
  show ?thesis
    by (intro conjI h1 h2 h3 wf f1 f2 t2 f3 t3)
qed

text \<open>
  The claim as stated fails: a call with one prompt and a call with two prompts at the
  same height and width have different shape signatures (the batch size differs), and the
  second is served by the graph of the first without any compilation.
\<close>

theorem batch_size_not_in_key_counterexample:
  "shape_signature (init_pipeline 4 77 768) (txt2img 1 512 512)
     \<noteq> shape_signature (init_pipeline 4 77 768) (txt2img 2 512 512)
   \<and> fst (run_calls [(BackendOk, txt2img 1 512 512), (BackendOk, txt2img 2 512 512)]
          (init_pipeline 4 77 768))
       = [Inr (Some (Graph 0 UNetGraph)), Inr (Some (Graph 0 UNetGraph))]
   \<and> compiled_graphs (trace (snd (run_calls
          [(BackendOk, txt2img 1 512 512), (BackendOk, txt2img 2 512 512)]
          (init_pipeline 4 77 768))))
       = [Graph 0 UNetGraph]"
  by (simp add: run_simps shape_signature_def do_classifier_free_guidance_def)

lemma evict_lru_subset:
  "evict_lru c d = (err, dels, d') \<Longrightarrow> set d' \<subseteq> set d"
proof (induction "length d" arbitrary: d dels rule: less_induct)
  case less
  from less.prems show ?case
  proof (cases rule: evict_lru_unfold)
    case (step e es dels1)
    from less.hyps [OF step(5) step(4)]
    show ?thesis by (auto simp: delete_filter)
  qed simp_all
qed

lemma set_update_subset: "set (AList.update k v d) \<subseteq> insert (k, v) (set d)"
  by (induction d) auto

lemma block_cached_warmed:
  assumes w: "cached_warmed s" and b: "compile_unet_block be hw u s = (r, s')"
  shows "cached_warmed s'" and "r = Inr g \<Longrightarrow> Warmup g \<in> set (trace s')"
proof -
  have "cached_warmed s' \<and> (r = Inr g \<longrightarrow> Warmup g \<in> set (trace s'))"
    using b
  proof (cases rule: block_cases)
    case (hit t g')
    note h = block_hit_proj [OF hit b]
    have in_d: "(hw, (t, g')) \<in> set (unet_graphs s)" using hit by (rule map_of_SomeD)
    then have wg: "Warmup g' \<in> set (trace s)" using w unfolding cached_warmed_def by fastforce
    have "Warmup (snd (snd e)) \<in> set (trace s')" if "e \<in> set (unet_graphs s')" for e
    proof -
      from that set_update_subset [of hw "(unet_graphs_lru_cache_time s + 1, g')" "unet_graphs s"]
      have "e = (hw, (unet_graphs_lru_cache_time s + 1, g')) \<or> e \<in> set (unet_graphs s)"
        unfolding h(2) by blast
      then show ?thesis using wg w unfolding cached_warmed_def h(3) by auto
    qed
    then show ?thesis using h(1) wg unfolding cached_warmed_def h(3) by auto
  next
    case (evict_raises e dels d')
    from evict_lru_raises [OF evict_raises(2)] block_evict_raises(1,2) [OF evict_raises b]
    show ?thesis by (simp add: cached_warmed_def)
  next
    case (compile_raises dels d')
    note r = block_compile_raises [OF compile_raises(1,2) b [unfolded compile_raises(3)]]
    from evict_lru_subset [OF compile_raises(2)] w show ?thesis
      unfolding cached_warmed_def r(1,2,3) by auto
  next
    case (warmup_raises dels d')
    note r = block_warmup_raises [OF warmup_raises(1,2) b [unfolded warmup_raises(3)]]
    from evict_lru_subset [OF warmup_raises(2)] w show ?thesis
      unfolding cached_warmed_def r(1,2,3) by auto
  next
    case (miss dels d')
    note r = block_miss_served [OF miss(1,2) b [unfolded miss(3)]]
    have "Warmup (snd (snd e)) \<in> set (trace s')" if "e \<in> set (unet_graphs s')" for e
    proof -
      from that set_update_subset [of hw "(unet_graphs_lru_cache_time s + 1, new_graph u s)" d']
      have "e = (hw, (unet_graphs_lru_cache_time s + 1, new_graph u s)) \<or> e \<in> set d'"
        unfolding r(2) by blast
      then show ?thesis
        using evict_lru_subset [OF miss(2)] w unfolding cached_warmed_def r(3) by auto
    qed
    then show ?thesis using r(1) unfolding cached_warmed_def r(3) by auto
  qed
  then show "cached_warmed s'" and "r = Inr g \<Longrightarrow> Warmup g \<in> set (trace s')" by simp_all
qed

lemma block_failed_miss:
  assumes none: "map_of (unet_graphs s) hw = None" and be: "be \<noteq> BackendOk"
      and b: "compile_unet_block be hw u s = (r, s')"
  shows "\<exists>e. r = Inl e" and "hw \<notin> fst ` set (unet_graphs s')"
proof -
  have new: "hw \<notin> fst ` set (unet_graphs s)"
    using none by (simp add: map_of_eq_None_iff)
  have "(\<exists>e. r = Inl e) \<and> hw \<notin> fst ` set (unet_graphs s')"
    using b
  proof (cases rule: block_cases)
    case (hit t g)
    with none show ?thesis by simp
  next
    case (evict_raises e dels d')
    from evict_lru_raises [OF evict_raises(2)] block_evict_raises(1,2) [OF evict_raises b]
    show ?thesis by simp
  next
    case (compile_raises dels d')
    note r = block_compile_raises [OF compile_raises(1,2) b [unfolded compile_raises(3)]]
    from evict_lru_subset [OF compile_raises(2)] new show ?thesis
      unfolding r(1,2) by auto
  next
    case (warmup_raises dels d')
    note r = block_warmup_raises [OF warmup_raises(1,2) b [unfolded warmup_raises(3)]]
    from evict_lru_subset [OF warmup_raises(2)] new show ?thesis
      unfolding r(1,2) by auto
  next
    case (miss dels d')
    with be show ?thesis by simp
  qed
  then show "\<exists>e. r = Inl e" and "hw \<notin> fst ` set (unet_graphs s')" by simp_all
qed

subsection \<open>Warmup before a graph is stored or used\<close>

text \<open>
  Claim C5. In every state the pipeline can reach, each cached graph has run its warmup:
  this holds after \<^verbatim>\<open>__init__\<close> and is kept by \<^verbatim>\<open>set_unet_graphs_cache_size\<close> and by
  every call, whatever its outcome; and the graph a call is served by has run its warmup
  before the denoising of that call uses it. On a served miss the call does, after the
  evictions and in this order: compile the new graph, run its warmup, store it in the
  dict, denoise with it. When the compiler or the warmup raises on a miss, the call
  raises, and the key is not in the dict afterwards.
\<close>

theorem warmup_before_insert_and_use:
  "cached_warmed (init_pipeline c l h)
   \<and> (cached_warmed s \<longrightarrow> cached_warmed (set_unet_graphs_cache_size n s))
   \<and> (pipeline_call be a s = (r, s') \<and> cached_warmed s \<longrightarrow>
        cached_warmed s'
        \<and> (\<forall>g. r = Inr (Some g) \<longrightarrow>
              (\<exists>pre. trace s' = pre @ [Denoise g] \<and> Warmup g \<in> set pre)))
   \<and> (pipeline_call be a s = (Inr (Some g), s') \<and> cache_key a \<notin> fst ` set (unet_graphs s) \<longrightarrow>
        (\<exists>dels. trace s' = trace s @ map Evict dels
                   @ [Compile g, Warmup g, Insert (cache_key a) g, Denoise g]))
   \<and> (pipeline_call be a s = (r, s') \<and> cache_key a \<notin> fst ` set (unet_graphs s)
        \<and> be \<noteq> BackendOk \<longrightarrow>
        (\<forall>g. r \<noteq> Inr (Some g)) \<and> cache_key a \<notin> fst ` set (unet_graphs s'))"
proof (intro conjI impI)
  show "cached_warmed (init_pipeline c l h)"
    by (simp add: cached_warmed_def init_pipeline_def)
next
  assume "cached_warmed s"
  then show "cached_warmed (set_unet_graphs_cache_size n s)"
    by (simp add: cached_warmed_def set_unet_graphs_cache_size_def)
next
  assume a: "pipeline_call be a s = (r, s') \<and> cached_warmed s"
  then have call: "pipeline_call be a s = (r, s')" and w: "cached_warmed s" by simp_all
  have "cached_warmed s'
        \<and> (\<forall>g. r = Inr (Some g) \<longrightarrow> (\<exists>pre. trace s' = pre @ [Denoise g] \<and> Warmup g \<in> set pre))"
    using call
  proof (cases rule: call_cases)
    case skip
    with w show ?thesis by auto
  next
    case (raised e)
    from block_cached_warmed(1) [OF w raised(2)] raised(3) show ?thesis by simp
  next
    case (served g s0)
    from block_cached_warmed(1) [OF w served(2)] block_cached_warmed(2) [OF w served(2) refl]
    have "cached_warmed s0" "Warmup g \<in> set (trace s0)" by simp_all
    then show ?thesis
      unfolding served(3,4) by (auto simp: cached_warmed_def)
  qed
  then show "cached_warmed s'"
    and "\<forall>g. r = Inr (Some g) \<longrightarrow> (\<exists>pre. trace s' = pre @ [Denoise g] \<and> Warmup g \<in> set pre)"
    by simp_all
next
  assume a: "pipeline_call be a s = (Inr (Some g), s') \<and> cache_key a \<notin> fst ` set (unet_graphs s)"
  then have call: "pipeline_call be a s = (Inr (Some g), s')"
    and none: "map_of (unet_graphs s) (cache_key a) = None"
    by (simp_all add: map_of_eq_None_iff)
  from call obtain s0 where
    b: "compile_unet_block be (cache_key a) (unrolled_timesteps a) s = (Inr g, s0)"
    and s': "s' = s0\<lparr>trace := trace s0 @ [Denoise g]\<rparr>"
    by (cases rule: call_cases) auto
  from block_served_trace(2) [OF none b]
  show "\<exists>dels. trace s' = trace s @ map Evict dels
                   @ [Compile g, Warmup g, Insert (cache_key a) g, Denoise g]"
    unfolding s' by auto
next
  assume a: "pipeline_call be a s = (r, s') \<and> cache_key a \<notin> fst ` set (unet_graphs s)
        \<and> be \<noteq> BackendOk"
  then have call: "pipeline_call be a s = (r, s')"
    and new: "cache_key a \<notin> fst ` set (unet_graphs s)"
    and none: "map_of (unet_graphs s) (cache_key a) = None"
    and be: "be \<noteq> BackendOk"
    by (simp_all add: map_of_eq_None_iff)
  have "(\<forall>g. r \<noteq> Inr (Some g)) \<and> cache_key a \<notin> fst ` set (unet_graphs s')"
    using call
  proof (cases rule: call_cases)
    case skip
    with new show ?thesis by auto
  next
    case (raised e)
    from block_failed_miss(2) [OF none be raised(2)] raised(3) show ?thesis by simp
  next
    case (served g s0)
    from block_failed_miss(1) [OF none be served(2)] show ?thesis by simp
  qed
  then show "\<forall>g. r \<noteq> Inr (Some g)" and "cache_key a \<notin> fst ` set (unet_graphs s')"
    by simp_all
qed


theorem warmup_before_insert_and_use_witness:
  "cached_warmed (init_pipeline 4 77 768)
   \<and> fst (pipeline_call BackendOk (txt2img 1 512 512) (init_pipeline 4 77 768))
       = Inr (Some (Graph 0 UNetGraph))
   \<and> trace (snd (pipeline_call BackendOk (txt2img 1 512 512) (init_pipeline 4 77 768)))
       = [Compile (Graph 0 UNetGraph), Warmup (Graph 0 UNetGraph),
          Insert (512, 512) (Graph 0 UNetGraph), Denoise (Graph 0 UNetGraph)]
   \<and> cached_warmed (snd (pipeline_call BackendOk (txt2img 1 512 512) (init_pipeline 4 77 768)))
   \<and> fst (pipeline_call WarmupFails (txt2img 1 512 512) (init_pipeline 4 77 768))
       = Inl WarmupRaised
   \<and> (512, 512) \<notin> fst ` set (unet_graphs
         (snd (pipeline_call WarmupFails (txt2img 1 512 512) (init_pipeline 4 77 768))))"
proof -
  let ?s = "init_pipeline 4 77 768" and ?a = "txt2img 1 512 512"
  let ?g = "Graph 0 UNetGraph"
  let ?s1 = "snd (pipeline_call BackendOk ?a ?s)"
  let ?s2 = "snd (pipeline_call WarmupFails ?a ?s)"
  have f1: "fst (pipeline_call BackendOk ?a ?s) = Inr (Some ?g)"
    and t1: "trace ?s1 = [Compile ?g, Warmup ?g, Insert (512, 512) ?g, Denoise ?g]"
    and f2: "fst (pipeline_call WarmupFails ?a ?s) = Inl WarmupRaised"
    by (simp_all add: run_simps)
  have c1: "pipeline_call BackendOk ?a ?s = (Inr (Some ?g), ?s1)"
    using f1 by (metis prod.collapse)
  have c2: "pipeline_call WarmupFails ?a ?s = (Inl WarmupRaised, ?s2)"
    using f2 by (metis prod.collapse)
  have k: "cache_key ?a = (512, 512)" by (simp add: run_simps)
  note t = warmup_before_insert_and_use [of 4 77 768 ?s 1 BackendOk ?a "Inr (Some ?g)" ?s1 ?g]
  note t' = warmup_before_insert_and_use [of 4 77 768 ?s 1 WarmupFails ?a "Inl WarmupRaised" ?s2 ?g]
  have w0: "cached_warmed ?s" using t by blast
  have w1: "cached_warmed ?s1"
    using t [THEN conjunct2, THEN conjunct2, THEN conjunct1] c1 w0 by blast
  have "pipeline_call WarmupFails ?a ?s = (Inl WarmupRaised, ?s2)
          \<and> cache_key ?a \<notin> fst ` set (unet_graphs ?s) \<and> WarmupFails \<noteq> BackendOk"
    using c2 by (simp add: init_pipeline_def)
  from t' [THEN conjunct2, THEN conjunct2, THEN conjunct2, THEN conjunct2, rule_format, OF this]
  have n2: "(512, 512) \<notin> fst ` set (unet_graphs ?s2)"
    unfolding k by blast
  show ?thesis
    by (intro conjI w0 f1 t1 w1 f2 n2)
qed

section \<open>Properties of the deployable module\<close>

subsection \<open>Device transfer\<close>

text \<open>
  Claim C6, as amended. \<^verbatim>\<open>to\<close> tests whether the module holds a graph object, not
  whether that graph has been built. It succeeds and moves the module when the module
  holds no graph object, whatever the target; it succeeds and moves the module when the
  target device is the device of the held graph's first state tensor; and when the module
  holds a graph object with blocks whose first state tensor is on another device than the
  target, it raises \<^verbatim>\<open>RuntimeError\<close> (the device mismatch) and the module is as
  before, also when that graph has never been built and the module is still unbuilt. A
  module that has been moved is on the target device; a call that names no device, or on
  a graph without blocks, succeeds.
\<close>

theorem device_transfer:
  "(dpl_graph m = None \<longrightarrow> deployable_to target m = (None, model_to target m))
   \<and> (dpl_graph m = Some g \<and> states g = d # rest \<longrightarrow>
        deployable_to (Some d) m = (None, model_to (Some d) m))
   \<and> (dpl_graph m = Some g \<and> 0 < blocks g \<and> states g = cur # rest \<and> cur \<noteq> d \<longrightarrow>
        deployable_to (Some d) m = (Some RuntimeError, m))
   \<and> module_device (model_to (Some d) m) = d
   \<and> (dpl_graph m = Some g \<and> \<not> built g \<and> 0 < blocks g \<and> states g = cur # rest \<and> cur \<noteq> d
        \<longrightarrow> state_of m = UNBUILT \<and> deployable_to (Some d) m = (Some RuntimeError, m))
   \<and> (dpl_graph m = Some g \<and> blocks g = 0 \<longrightarrow>
        deployable_to target m = (None, model_to target m))
   \<and> deployable_to None m = (None, m)"
  by (auto simp: deployable_to_def model_to_def check_device_def state_of_def
      split: option.splits list.splits)

theorem device_transfer_witness:
  "deployable_to (Some (Cuda 0))
      \<lparr>use_graph = True, enable_dynamic = True, options_size = None, options_debug = None,
       options_graph_file = None, dpl_graph = None, load_graph_first_run = True,
       module_device = Cpu, module_states = 2, has_oneflow_module = True, compile_attempts = 0\<rparr>
     = (None,
        \<lparr>use_graph = True, enable_dynamic = True, options_size = None, options_debug = None,
         options_graph_file = None, dpl_graph = None, load_graph_first_run = True,
         module_device = Cuda 0, module_states = 2, has_oneflow_module = True,
         compile_attempts = 0\<rparr>)
   \<and> fst (deployable_to (Some (Cuda 0))
      \<lparr>use_graph = True, enable_dynamic = True, options_size = None, options_debug = None,
       options_graph_file = None,
       dpl_graph = Some \<lparr>graph_size = 9, graph_dynamic = True, graph_debug = None, blocks = 1,
                         states = [Cuda 0, Cuda 0], built = True\<rparr>,
       load_graph_first_run = True,
       module_device = Cuda 0, module_states = 2, has_oneflow_module = True,
       compile_attempts = 1\<rparr>) = None
   \<and> deployable_to (Some Cpu)
      \<lparr>use_graph = True, enable_dynamic = True, options_size = None, options_debug = None,
       options_graph_file = None,
       dpl_graph = Some \<lparr>graph_size = 9, graph_dynamic = True, graph_debug = None, blocks = 1,
                         states = [Cuda 0, Cuda 0], built = True\<rparr>,
       load_graph_first_run = True,
       module_device = Cuda 0, module_states = 2, has_oneflow_module = True,
       compile_attempts = 1\<rparr>
     = (Some RuntimeError,
      \<lparr>use_graph = True, enable_dynamic = True, options_size = None, options_debug = None,
       options_graph_file = None,
       dpl_graph = Some \<lparr>graph_size = 9, graph_dynamic = True, graph_debug = None, blocks = 1,
                         states = [Cuda 0, Cuda 0], built = True\<rparr>,
       load_graph_first_run = True,
       module_device = Cuda 0, module_states = 2, has_oneflow_module = True,
       compile_attempts = 1\<rparr>)
   \<and> state_of
      \<lparr>use_graph = True, enable_dynamic = True, options_size = None, options_debug = None,
       options_graph_file = None,
       dpl_graph = Some \<lparr>graph_size = 9, graph_dynamic = True, graph_debug = None, blocks = 1,
                         states = [Cuda 0, Cuda 0], built = False\<rparr>,
       load_graph_first_run = True,
       module_device = Cuda 0, module_states = 2, has_oneflow_module = True,
       compile_attempts = 0\<rparr> = UNBUILT
   \<and> fst (deployable_to (Some Cpu)
      \<lparr>use_graph = True, enable_dynamic = True, options_size = None, options_debug = None,
       options_graph_file = None,
       dpl_graph = Some \<lparr>graph_size = 9, graph_dynamic = True, graph_debug = None, blocks = 1,
                         states = [Cuda 0, Cuda 0], built = False\<rparr>,
       load_graph_first_run = True,
       module_device = Cuda 0, module_states = 2, has_oneflow_module = True,
       compile_attempts = 0\<rparr>) = Some RuntimeError"
proof -
  let ?m0 = "\<lparr>use_graph = True, enable_dynamic = True, options_size = None, options_debug = None,
       options_graph_file = None, dpl_graph = None, load_graph_first_run = True,
       module_device = Cpu, module_states = 2, has_oneflow_module = True, compile_attempts = 0\<rparr>"
  let ?g = "\<lparr>graph_size = 9, graph_dynamic = True, graph_debug = None, blocks = 1,
                         states = [Cuda 0, Cuda 0], built = True\<rparr>"
  let ?m1 = "\<lparr>use_graph = True, enable_dynamic = True, options_size = None, options_debug = None,
       options_graph_file = None, dpl_graph = Some ?g,
       load_graph_first_run = True,
       module_device = Cuda 0, module_states = 2, has_oneflow_module = True,
       compile_attempts = 1\<rparr>"
  have a: "deployable_to (Some (Cuda 0)) ?m0 = (None, model_to (Some (Cuda 0)) ?m0)"
    using device_transfer [where m = ?m0 and target = "Some (Cuda 0)", THEN conjunct1] by simp
  have b: "deployable_to (Some (Cuda 0)) ?m1 = (None, model_to (Some (Cuda 0)) ?m1)"
    using device_transfer [where m = ?m1 and g = ?g and d = "Cuda 0" and rest = "[Cuda 0]",
        THEN conjunct2, THEN conjunct1]
    by simp
  have c: "deployable_to (Some Cpu) ?m1 = (Some RuntimeError, ?m1)"
    using device_transfer [where m = ?m1 and g = ?g and cur = "Cuda 0" and rest = "[Cuda 0]"
          and d = Cpu, THEN conjunct2, THEN conjunct2, THEN conjunct1]
    by simp
  let ?gu = "\<lparr>graph_size = 9, graph_dynamic = True, graph_debug = None, blocks = 1,
                         states = [Cuda 0, Cuda 0], built = False\<rparr>"
  let ?mu = "\<lparr>use_graph = True, enable_dynamic = True, options_size = None, options_debug = None,
       options_graph_file = None, dpl_graph = Some ?gu,
       load_graph_first_run = True,
       module_device = Cuda 0, module_states = 2, has_oneflow_module = True,
       compile_attempts = 0\<rparr>"
  have u: "state_of ?mu = UNBUILT \<and> deployable_to (Some Cpu) ?mu = (Some RuntimeError, ?mu)"
    using device_transfer [where m = ?mu and g = ?gu and cur = "Cuda 0" and rest = "[Cuda 0]"
          and d = Cpu, THEN conjunct2, THEN conjunct2, THEN conjunct2, THEN conjunct2,
          THEN conjunct1]
    by simp
  have u1: "state_of ?mu = UNBUILT" and u2: "fst (deployable_to (Some Cpu) ?mu) = Some RuntimeError"
    using u by simp_all
  show ?thesis
    using a b c u1 u2 by (simp add: model_to_def)
qed

text \<open>
  The claim as stated fails: \<^verbatim>\<open>get_graph\<close> (which \<^verbatim>\<open>save_graph\<close> and \<^verbatim>\<open>load_graph\<close>
  call) creates the graph object without building it; the module is still unbuilt and no
  compilation has been attempted, and \<^verbatim>\<open>to\<close> with another device raises
  \<^verbatim>\<open>RuntimeError\<close>. The same with the graph object written out.
\<close>

theorem unbuilt_graph_refuses_transfer_counterexample:
  "state_of (snd (get_graph False
      \<lparr>use_graph = True, enable_dynamic = True, options_size = None, options_debug = None,
       options_graph_file = None, dpl_graph = None, load_graph_first_run = True,
       module_device = Cuda 0, module_states = 2, has_oneflow_module = True,
       compile_attempts = 0\<rparr>)) = UNBUILT
   \<and> compile_attempts (snd (get_graph False
      \<lparr>use_graph = True, enable_dynamic = True, options_size = None, options_debug = None,
       options_graph_file = None, dpl_graph = None, load_graph_first_run = True,
       module_device = Cuda 0, module_states = 2, has_oneflow_module = True,
       compile_attempts = 0\<rparr>)) = 0
   \<and> fst (deployable_to (Some Cpu) (snd (get_graph False
      \<lparr>use_graph = True, enable_dynamic = True, options_size = None, options_debug = None,
       options_graph_file = None, dpl_graph = None, load_graph_first_run = True,
       module_device = Cuda 0, module_states = 2, has_oneflow_module = True,
       compile_attempts = 0\<rparr>))) = Some RuntimeError
   \<and> state_of
      \<lparr>use_graph = True, enable_dynamic = True, options_size = None, options_debug = None,
       options_graph_file = None,
       dpl_graph = Some \<lparr>graph_size = 9, graph_dynamic = True, graph_debug = None, blocks = 1,
                         states = [Cuda 0, Cuda 0], built = False\<rparr>,
       load_graph_first_run = True, module_device = Cuda 0, module_states = 2,
       has_oneflow_module = True, compile_attempts = 0\<rparr> = UNBUILT
   \<and> fst (deployable_to (Some Cpu)
      \<lparr>use_graph = True, enable_dynamic = True, options_size = None, options_debug = None,
       options_graph_file = None,
       dpl_graph = Some \<lparr>graph_size = 9, graph_dynamic = True, graph_debug = None, blocks = 1,
                         states = [Cuda 0, Cuda 0], built = False\<rparr>,
       load_graph_first_run = True, module_device = Cuda 0, module_states = 2,
       has_oneflow_module = True, compile_attempts = 0\<rparr>) = Some RuntimeError"
  by (simp add: get_graph_def get_oneflow_graph_def state_of_def deployable_to_def
      check_device_def Let_def numeral_2_eq_2)

subsection \<open>Setting the graph file\<close>

text \<open>
  Claim C8, as amended. \<^verbatim>\<open>set_graph_file(p)\<close> with a non-empty \<open>p\<close> equal to the path
  configured leaves the module as it is. In every other case, that is when \<open>p\<close> differs
  from the path configured or \<open>p\<close> is empty, it records \<open>p\<close> as the graph file, drops
  the graph held, sets \<^verbatim>\<open>_load_graph_first_run\<close> and deletes the oneflow module; the
  module is then unbuilt and the next call with \<^verbatim>\<open>use_graph\<close> builds a graph anew.
\<close>

theorem set_graph_file_clears:
  "(file_path \<noteq> [] \<and> get_graph_file m = Some file_path \<longrightarrow> set_graph_file file_path m = m)
   \<and> (file_path = [] \<or> get_graph_file m \<noteq> Some file_path \<longrightarrow>
        set_graph_file file_path m =
          m\<lparr>options_graph_file := Some file_path, load_graph_first_run := True,
            dpl_graph := None, has_oneflow_module := False\<rparr>
        \<and> get_graph_file (set_graph_file file_path m) = Some file_path
        \<and> dpl_graph (set_graph_file file_path m) = None
        \<and> state_of (set_graph_file file_path m) = UNBUILT
        \<and> (use_graph m \<longrightarrow>
             fst (call_body debug_mode True (set_graph_file file_path m)) = Inr GraphOutput
             \<and> compile_attempts (snd (call_body debug_mode True (set_graph_file file_path m)))
                 = Suc (compile_attempts m)))"
  by (auto simp: set_graph_file_def get_graph_file_def clear_old_graph_def state_of_def
      call_body_def get_graph_def call_graph_def get_oneflow_graph_def Let_def
      split: option.splits)

theorem set_graph_file_clears_witness:
  "set_graph_file ''a.graph''
     \<lparr>use_graph = True, enable_dynamic = True, options_size = None, options_debug = None,
      options_graph_file = Some ''a.graph'',
      dpl_graph = Some \<lparr>graph_size = 9, graph_dynamic = True, graph_debug = None, blocks = 1,
                        states = [Cuda 0], built = True\<rparr>,
      load_graph_first_run = False, module_device = Cuda 0, module_states = 1,
      has_oneflow_module = True, compile_attempts = 1\<rparr>
   = \<lparr>use_graph = True, enable_dynamic = True, options_size = None, options_debug = None,
      options_graph_file = Some ''a.graph'',
      dpl_graph = Some \<lparr>graph_size = 9, graph_dynamic = True, graph_debug = None, blocks = 1,
                        states = [Cuda 0], built = True\<rparr>,
      load_graph_first_run = False, module_device = Cuda 0, module_states = 1,
      has_oneflow_module = True, compile_attempts = 1\<rparr>
   \<and> set_graph_file ''b.graph''
     \<lparr>use_graph = True, enable_dynamic = True, options_size = None, options_debug = None,
      options_graph_file = Some ''a.graph'',
      dpl_graph = Some \<lparr>graph_size = 9, graph_dynamic = True, graph_debug = None, blocks = 1,
                        states = [Cuda 0], built = True\<rparr>,
      load_graph_first_run = False, module_device = Cuda 0, module_states = 1,
      has_oneflow_module = True, compile_attempts = 1\<rparr>
   = \<lparr>use_graph = True, enable_dynamic = True, options_size = None, options_debug = None,
      options_graph_file = Some ''b.graph'', dpl_graph = None,
      load_graph_first_run = True, module_device = Cuda 0, module_states = 1,
      has_oneflow_module = False, compile_attempts = 1\<rparr>
   \<and> compile_attempts (snd (call_body False True (set_graph_file ''b.graph''
     \<lparr>use_graph = True, enable_dynamic = True, options_size = None, options_debug = None,
      options_graph_file = Some ''a.graph'',
      dpl_graph = Some \<lparr>graph_size = 9, graph_dynamic = True, graph_debug = None, blocks = 1,
                        states = [Cuda 0], built = True\<rparr>,
      load_graph_first_run = False, module_device = Cuda 0, module_states = 1,
      has_oneflow_module = True, compile_attempts = 1\<rparr>))) = 2"
proof -
  let ?m = "\<lparr>use_graph = True, enable_dynamic = True, options_size = None, options_debug = None,
      options_graph_file = Some ''a.graph'',
      dpl_graph = Some \<lparr>graph_size = 9, graph_dynamic = True, graph_debug = None, blocks = 1,
                        states = [Cuda 0], built = True\<rparr>,
      load_graph_first_run = False, module_device = Cuda 0, module_states = 1,
      has_oneflow_module = True, compile_attempts = 1\<rparr>"
  have h1: "''a.graph'' \<noteq> [] \<and> get_graph_file ?m = Some ''a.graph''"
    by (simp add: get_graph_file_def)
  have h2: "''b.graph'' = [] \<or> get_graph_file ?m \<noteq> Some ''b.graph''"
    by (simp add: get_graph_file_def)
  have u: "use_graph ?m" by simp
  note a = set_graph_file_clears [where m = ?m and file_path = "''a.graph''",
      THEN conjunct1, THEN mp, OF h1]
  note b = set_graph_file_clears [where m = ?m and file_path = "''b.graph''"
      and debug_mode = False, THEN conjunct2, THEN mp, OF h2]
  have b1: "set_graph_file ''b.graph'' ?m =
      \<lparr>use_graph = True, enable_dynamic = True, options_size = None, options_debug = None,
      options_graph_file = Some ''b.graph'', dpl_graph = None,
      load_graph_first_run = True, module_device = Cuda 0, module_states = 1,
      has_oneflow_module = False, compile_attempts = 1\<rparr>"
    using b [THEN conjunct1] by simp
  have "compile_attempts (snd (call_body False True (set_graph_file ''b.graph'' ?m)))
          = Suc (compile_attempts ?m)"
    using b u by blast
  then have b2: "compile_attempts (snd (call_body False True (set_graph_file ''b.graph'' ?m))) = 2"
    by simp
  show ?thesis
    by (intro conjI a b1 b2)
qed

text \<open>
  The claim as stated fails for the empty path: with \<^verbatim>\<open>""\<close> configured and a graph
  held, \<^verbatim>\<open>set_graph_file("")\<close> drops the graph.
\<close>

theorem set_graph_file_same_path_counterexample:
  "get_graph_file
     \<lparr>use_graph = True, enable_dynamic = True, options_size = None, options_debug = None,
      options_graph_file = Some '''',
      dpl_graph = Some \<lparr>graph_size = 9, graph_dynamic = True, graph_debug = None, blocks = 1,
                        states = [Cuda 0], built = True\<rparr>,
      load_graph_first_run = False, module_device = Cuda 0, module_states = 1,
      has_oneflow_module = True, compile_attempts = 1\<rparr> = Some ''''
   \<and> dpl_graph (set_graph_file ''''
     \<lparr>use_graph = True, enable_dynamic = True, options_size = None, options_debug = None,
      options_graph_file = Some '''',
      dpl_graph = Some \<lparr>graph_size = 9, graph_dynamic = True, graph_debug = None, blocks = 1,
                        states = [Cuda 0], built = True\<rparr>,
      load_graph_first_run = False, module_device = Cuda 0, module_states = 1,
      has_oneflow_module = True, compile_attempts = 1\<rparr>) = None
   \<and> set_graph_file ''''
     \<lparr>use_graph = True, enable_dynamic = True, options_size = None, options_debug = None,
      options_graph_file = Some '''',
      dpl_graph = Some \<lparr>graph_size = 9, graph_dynamic = True, graph_debug = None, blocks = 1,
                        states = [Cuda 0], built = True\<rparr>,
      load_graph_first_run = False, module_device = Cuda 0, module_states = 1,
      has_oneflow_module = True, compile_attempts = 1\<rparr>
     \<noteq>
     \<lparr>use_graph = True, enable_dynamic = True, options_size = None, options_debug = None,
      options_graph_file = Some '''',
      dpl_graph = Some \<lparr>graph_size = 9, graph_dynamic = True, graph_debug = None, blocks = 1,
                        states = [Cuda 0], built = True\<rparr>,
      load_graph_first_run = False, module_device = Cuda 0, module_states = 1,
      has_oneflow_module = True, compile_attempts = 1\<rparr>"
  by (simp add: set_graph_file_def get_graph_file_def clear_old_graph_def)

lemma call_body_fails:
  assumes "use_graph m" and "state_of m = UNBUILT"
  shows "\<exists>m'. call_body debug_mode False m = (Inl CompilationFailed, m')
           \<and> compile_attempts m' = Suc (compile_attempts m)
           \<and> use_graph m' = use_graph m \<and> options_graph_file m' = options_graph_file m"
  using assms
  by (auto simp: call_body_def get_graph_def call_graph_def state_of_def Let_def
      get_oneflow_graph_def split: option.splits if_splits)

subsection \<open>A compilation that fails\<close>

text \<open>
  Claim C7. Take a module with \<^verbatim>\<open>use_graph\<close> that holds no built graph. When the
  compilation fails in a call, the call returns the result of the eager execution; the
  graph slot is what it was before the call, the module is still unbuilt and
  \<^verbatim>\<open>use_graph\<close> still holds; the call has attempted one compilation, and the next call
  attempts another, whatever its outcome: when that compilation succeeds the call
  returns the graph's result and the module is ready.
\<close>

theorem compilation_failure_falls_back:
  assumes "use_graph m" and "state_of m = UNBUILT"
  shows "fst (deployable_call debug_mode False m) = Inr EagerOutput
         \<and> dpl_graph (snd (deployable_call debug_mode False m)) = dpl_graph m
         \<and> state_of (snd (deployable_call debug_mode False m)) = UNBUILT
         \<and> use_graph (snd (deployable_call debug_mode False m))
         \<and> compile_attempts (snd (deployable_call debug_mode False m)) = Suc (compile_attempts m)
         \<and> compile_attempts (snd (deployable_call debug_mode compile_ok
               (snd (deployable_call debug_mode False m)))) = Suc (Suc (compile_attempts m))
         \<and> fst (deployable_call debug_mode True (snd (deployable_call debug_mode False m)))
             = Inr GraphOutput
         \<and> state_of (snd (deployable_call debug_mode True
               (snd (deployable_call debug_mode False m)))) = READY"
proof -
  from call_body_fails [OF assms, of debug_mode] obtain m' where
    b: "call_body debug_mode False m = (Inl CompilationFailed, m')"
    and c: "compile_attempts m' = Suc (compile_attempts m)"
    and u: "use_graph m' = use_graph m" by blast
  let ?m1 = "m'\<lparr>dpl_graph := dpl_graph m\<rparr>"
  have d: "deployable_call debug_mode False m = (Inr EagerOutput, ?m1)"
    using b by (simp add: deployable_call_def handle_deployable_exception_def)
  have s1: "state_of ?m1 = UNBUILT"
    using assms(2) by (simp add: state_of_def)
  have u1: "use_graph ?m1" using u assms(1) by simp
  have again: "compile_attempts (snd (deployable_call debug_mode compile_ok ?m1))
                 = Suc (Suc (compile_attempts m))"
    using s1 u1 c
    by (auto simp: deployable_call_def handle_deployable_exception_def call_body_def
        get_graph_def call_graph_def state_of_def Let_def get_oneflow_graph_def
        split: option.splits if_splits)
  have ok: "fst (deployable_call debug_mode True ?m1) = Inr GraphOutput
            \<and> state_of (snd (deployable_call debug_mode True ?m1)) = READY"
    using s1 u1
    by (auto simp: deployable_call_def handle_deployable_exception_def call_body_def
        get_graph_def call_graph_def state_of_def Let_def get_oneflow_graph_def
        split: option.splits if_splits)
  show ?thesis
    unfolding d using s1 u1 c again ok by simp
qed


theorem compilation_failure_falls_back_witness:
  "use_graph \<lparr>use_graph = True, enable_dynamic = True, options_size = None, options_debug = None,
      options_graph_file = None, dpl_graph = None, load_graph_first_run = True,
      module_device = Cuda 0, module_states = 1, has_oneflow_module = True,
      compile_attempts = 0\<rparr>
   \<and> state_of \<lparr>use_graph = True, enable_dynamic = True, options_size = None, options_debug = None,
      options_graph_file = None, dpl_graph = None, load_graph_first_run = True,
      module_device = Cuda 0, module_states = 1, has_oneflow_module = True,
      compile_attempts = 0\<rparr> = UNBUILT
   \<and> fst (deployable_call False False \<lparr>use_graph = True, enable_dynamic = True, options_size = None, options_debug = None,
      options_graph_file = None, dpl_graph = None, load_graph_first_run = True,
      module_device = Cuda 0, module_states = 1, has_oneflow_module = True,
      compile_attempts = 0\<rparr>) = Inr EagerOutput
   \<and> dpl_graph (snd (deployable_call False False \<lparr>use_graph = True, enable_dynamic = True, options_size = None, options_debug = None,
      options_graph_file = None, dpl_graph = None, load_graph_first_run = True,
      module_device = Cuda 0, module_states = 1, has_oneflow_module = True,
      compile_attempts = 0\<rparr>)) = None
   \<and> compile_attempts (snd (deployable_call False False \<lparr>use_graph = True, enable_dynamic = True, options_size = None, options_debug = None,
      options_graph_file = None, dpl_graph = None, load_graph_first_run = True,
      module_device = Cuda 0, module_states = 1, has_oneflow_module = True,
      compile_attempts = 0\<rparr>)) = 1
   \<and> compile_attempts (snd (deployable_call False False
         (snd (deployable_call False False \<lparr>use_graph = True, enable_dynamic = True, options_size = None, options_debug = None,
      options_graph_file = None, dpl_graph = None, load_graph_first_run = True,
      module_device = Cuda 0, module_states = 1, has_oneflow_module = True,
      compile_attempts = 0\<rparr>)))) = 2
   \<and> state_of (snd (deployable_call False True
         (snd (deployable_call False False \<lparr>use_graph = True, enable_dynamic = True, options_size = None, options_debug = None,
      options_graph_file = None, dpl_graph = None, load_graph_first_run = True,
      module_device = Cuda 0, module_states = 1, has_oneflow_module = True,
      compile_attempts = 0\<rparr>)))) = READY"
proof -
  let ?m = "\<lparr>use_graph = True, enable_dynamic = True, options_size = None, options_debug = None,
      options_graph_file = None, dpl_graph = None, load_graph_first_run = True,
      module_device = Cuda 0, module_states = 1, has_oneflow_module = True,
      compile_attempts = 0\<rparr>"
  have h1: "use_graph ?m" by simp
  have h2: "state_of ?m = UNBUILT" by (simp add: state_of_def)
  note t = compilation_failure_falls_back [OF h1 h2, of False False]
  have a: "fst (deployable_call False False ?m) = Inr EagerOutput" using t by blast
  have b: "dpl_graph (snd (deployable_call False False ?m)) = None" using t by simp
  have c: "compile_attempts (snd (deployable_call False False ?m)) = 1" using t by simp
  have d: "compile_attempts (snd (deployable_call False False
             (snd (deployable_call False False ?m)))) = 2" using t by simp
  have e: "state_of (snd (deployable_call False True
             (snd (deployable_call False False ?m)))) = READY" using t by blast
  show ?thesis
    by (intro conjI h1 h2 a b c d e)
qed

section \<open>Properties of the sd-webui script\<close>

lemma sd_type_eq_iff:
  "(t :: sd_type) = m \<longleftrightarrow>
   is_sdxl t = is_sdxl m \<and> is_sd2 t = is_sd2 m \<and> is_sd1 t = is_sd1 m \<and> is_ssd t = is_ssd m"
  by (cases t; cases m) auto

lemma check_model_structure_change_eq:
  "check_model_structure_change s =
     (current_type s \<noteq> Some (sd_model_type s),
      if current_type s \<noteq> Some (sd_model_type s)
      then s\<lparr>current_type := Some (sd_model_type s)\<rparr> else s)"
  by (cases "current_type s")
     (simp_all add: check_model_structure_change_def Let_def sd_type_eq_iff)

lemma with_UnetCompileCtx_eq:
  "with_UnetCompileCtx body s =
     (map_sum id Some (fst (body (s\<lparr>diffusion_model := compiled_unet s\<rparr>))),
      (snd (body (s\<lparr>diffusion_model := compiled_unet s\<rparr>)))\<lparr>diffusion_model := diffusion_model s\<rparr>)"
  by (simp add: with_UnetCompileCtx_def UnetCompileCtx_enter_def UnetCompileCtx_exit_def
      split_def Let_def split: sum.splits)

lemma run_need_recompile_frame:
  "diffusion_model (snd (run_need_recompile q s)) = diffusion_model s"
  "compile_unet_calls (snd (run_need_recompile q s)) = compile_unet_calls s"
  "compiled_unet (snd (run_need_recompile q s)) = compiled_unet s"
  by (simp_all add: run_need_recompile_def check_model_structure_change_eq Let_def split_def
      split: option.splits)

lemma run_process_frame:
  "diffusion_model (snd (run_process q body rt s)) = diffusion_model s"
  by (simp add: run_process_def with_UnetCompileCtx_eq Let_def split: sum.splits)

lemma script_run_restores:
  "diffusion_model (snd (script_run q body rt s)) = diffusion_model s"
proof -
  let ?q = "quantization_flag q"
  obtain r s1 where n: "run_need_recompile ?q s = (r, s1)"
    by (cases "run_need_recompile ?q s") blast
  have d: "diffusion_model s1 = diffusion_model s"
    using run_need_recompile_frame(1) [of ?q s] n by simp
  show ?thesis
  proof (cases r)
    case (Inl e)
    with n d show ?thesis by (simp add: script_run_def Let_def)
  next
    case (Inr need)
    with n d show ?thesis
      by (simp add: script_run_def run_process_frame run_recompile_def Let_def)
  qed
qed

subsection \<open>The compiled unet is swapped in and the original restored\<close>

text \<open>
  Claim C9. \<^verbatim>\<open>__enter__\<close> sets \<^verbatim>\<open>shared.sd_model.model.diffusion_model\<close> to the global
  \<^verbatim>\<open>compiled_unet\<close>, and the body of the \<^verbatim>\<open>with\<close> statement starts in that state.
  Whatever the body does and whether it returns or raises, the state after the statement
  is the state the body left with the attribute set back to the value it had at entry;
  an exception of the body leaves the statement as it is, a value does too. So after
  \<^verbatim>\<open>Script.run\<close>, on every path, the attribute has the value it had before.
\<close>

theorem unet_compile_ctx_restores:
  "diffusion_model (snd (UnetCompileCtx_enter s)) = compiled_unet s
   \<and> snd (with_UnetCompileCtx body s) =
        (snd (body (snd (UnetCompileCtx_enter s))))\<lparr>diffusion_model := diffusion_model s\<rparr>
   \<and> diffusion_model (snd (with_UnetCompileCtx body s)) = diffusion_model s
   \<and> fst (with_UnetCompileCtx body s) = map_sum id Some (fst (body (snd (UnetCompileCtx_enter s))))
   \<and> diffusion_model (snd (script_run q process_images rt s)) = diffusion_model s"
  by (simp add: with_UnetCompileCtx_eq UnetCompileCtx_enter_def script_run_restores)


lemma copy_conv_weights_need:
  "snd (copy_conv_weights original d) \<longleftrightarrow> (\<exists>k. (k, None) \<in> set d)"
  by (induction original d rule: copy_conv_weights.induct) (auto simp: split_def Let_def)

lemma copy_conv_weights_all:
  "\<not> (\<exists>k. (k, None) \<in> set d) \<Longrightarrow>
   fst (copy_conv_weights original d) = map (\<lambda>e. (fst e, Some (Permuted original (fst e)))) d"
  by (induction original d rule: copy_conv_weights.induct) (auto simp: split_def Let_def)

lemma run_need_recompile_iff:
  "fst (run_need_recompile quantization s) = Inr True \<longleftrightarrow> recompile_condition quantization s"
  using copy_conv_weights_need [of "diffusion_model s"]
  by (cases "convname_dict s")
     (auto simp: run_need_recompile_def check_model_structure_change_eq Let_def split_def
        recompile_condition_def)

lemma run_process_calls:
  assumes "\<And>t. compile_unet_calls (snd (body t)) = compile_unet_calls t"
  shows "compile_unet_calls (snd (run_process q body rt s)) = compile_unet_calls s"
  using assms by (simp add: run_process_def with_UnetCompileCtx_eq Let_def split: sum.splits)

lemma script_run_compiles_iff:
  assumes "\<And>t. compile_unet_calls (snd (body t)) = compile_unet_calls t"
  shows "compile_unet_calls (snd (script_run q body rt s)) =
           (if recompile_condition (quantization_flag q) s then Suc (compile_unet_calls s)
            else compile_unet_calls s)"
proof -
  let ?q = "quantization_flag q"
  obtain r s1 where n: "run_need_recompile ?q s = (r, s1)"
    by (cases "run_need_recompile ?q s") blast
  have c: "compile_unet_calls s1 = compile_unet_calls s"
    using run_need_recompile_frame(2) [of ?q s] n by simp
  have iff: "r = Inr True \<longleftrightarrow> recompile_condition ?q s"
    using run_need_recompile_iff [of ?q s] n by simp
  show ?thesis
  proof (cases r)
    case (Inl e)
    with n c iff show ?thesis by (simp add: script_run_def Let_def)
  next
    case (Inr need)
    with n c iff show ?thesis
      by (simp add: script_run_def Let_def run_process_calls [OF assms] run_recompile_def)
  qed
qed


lemma switch_checkpoint_reuses_graph:
  assumes "current_type s = Some (sd_model_type s)" and "\<not> quantization_flag q"
      and "Some (sd_model_checkpoint s) \<noteq> compiled_ckpt_name s"
      and "convname_dict s = Some d" and "\<not> (\<exists>k. (k, None) \<in> set d)"
  shows "script_run q body rt s =
           run_process False body rt
             (s\<lparr>convname_dict :=
                  Some (map (\<lambda>e. (fst e, Some (Permuted (diffusion_model s) (fst e)))) d)\<rparr>)"
  using assms copy_conv_weights_need [of "diffusion_model s" d]
    copy_conv_weights_all [of d "diffusion_model s"]
  by (simp add: script_run_def run_need_recompile_def check_model_structure_change_eq
      ckpt_name_def Let_def split_def)

lemma switch_checkpoint_without_table_raises:
  assumes "current_type s = Some (sd_model_type s)" and "\<not> quantization_flag q"
      and "Some (sd_model_checkpoint s) \<noteq> compiled_ckpt_name s"
      and "convname_dict s = None"
  shows "script_run q body rt s = (Inl TypeError, s)"
  using assms
  by (simp add: script_run_def run_need_recompile_def check_model_structure_change_eq
      ckpt_name_def Let_def split_def)

subsection \<open>When the script compiles\<close>

text \<open>
  Claim C10. The lemmas above say when \<^verbatim>\<open>compile_unet\<close> is called
  (\<open>script_run_compiles_iff\<close>), and that a switch of checkpoint with the same structure
  and without quantization copies the conv weights into the graph compiled before, when
  the table of conv names is there (\<open>switch_checkpoint_reuses_graph\<close>). The table is
  \<^verbatim>\<open>None\<close> after a run with quantization: that run compiles and never builds the table.
  The next run without quantization, on another checkpoint of the same structure or on
  the same one, does not compile and iterates the table: it raises \<^verbatim>\<open>TypeError\<close>
  before \<^verbatim>\<open>process_images\<close> is reached, where the claim has the compiled graph reused
  with the new weights.
\<close>

theorem unquantized_run_after_quantized_run_raises:
  "script_run (QuantizationBool True) process_images_returns []
     (init_webui ''A'' \<lparr>is_sdxl = False, is_sd2 = False, is_sd1 = True, is_ssd = False\<rparr> (UNetModelLDM 0))
   = (Inr (),
      \<lparr>compiled_unet = Quantized (CompiledLDM (UNetModelLDM 0)),
        compiled_ckpt_name = Some ''A_quantized'',
        current_type = Some \<lparr>is_sdxl = False, is_sd2 = False, is_sd1 = True, is_ssd = False\<rparr>,
        convname_dict = None, sd_model_checkpoint = ''A'',
        sd_model_type = \<lparr>is_sdxl = False, is_sd2 = False, is_sd1 = True, is_ssd = False\<rparr>,
        diffusion_model = UNetModelLDM 0, compile_unet_calls = 1\<rparr>)
   \<and> script_run (QuantizationBool False) process_images_returns []
      \<lparr>compiled_unet = Quantized (CompiledLDM (UNetModelLDM 0)),
        compiled_ckpt_name = Some ''A_quantized'',
        current_type = Some \<lparr>is_sdxl = False, is_sd2 = False, is_sd1 = True, is_ssd = False\<rparr>,
        convname_dict = None, sd_model_checkpoint = ''B'',
        sd_model_type = \<lparr>is_sdxl = False, is_sd2 = False, is_sd1 = True, is_ssd = False\<rparr>,
        diffusion_model = UNetModelLDM 1, compile_unet_calls = 1\<rparr>
   = (Inl TypeError,
      \<lparr>compiled_unet = Quantized (CompiledLDM (UNetModelLDM 0)),
        compiled_ckpt_name = Some ''A_quantized'',
        current_type = Some \<lparr>is_sdxl = False, is_sd2 = False, is_sd1 = True, is_ssd = False\<rparr>,
        convname_dict = None, sd_model_checkpoint = ''B'',
        sd_model_type = \<lparr>is_sdxl = False, is_sd2 = False, is_sd1 = True, is_ssd = False\<rparr>,
        diffusion_model = UNetModelLDM 1, compile_unet_calls = 1\<rparr>)
   \<and> script_run (QuantizationBool False) process_images_returns []
      \<lparr>compiled_unet = Quantized (CompiledLDM (UNetModelLDM 0)),
        compiled_ckpt_name = Some ''A_quantized'',
        current_type = Some \<lparr>is_sdxl = False, is_sd2 = False, is_sd1 = True, is_ssd = False\<rparr>,
        convname_dict = None, sd_model_checkpoint = ''A'',
        sd_model_type = \<lparr>is_sdxl = False, is_sd2 = False, is_sd1 = True, is_ssd = False\<rparr>,
        diffusion_model = UNetModelLDM 0, compile_unet_calls = 1\<rparr>
   = (Inl TypeError,
      \<lparr>compiled_unet = Quantized (CompiledLDM (UNetModelLDM 0)),
        compiled_ckpt_name = Some ''A_quantized'',
        current_type = Some \<lparr>is_sdxl = False, is_sd2 = False, is_sd1 = True, is_ssd = False\<rparr>,
        convname_dict = None, sd_model_checkpoint = ''A'',
        sd_model_type = \<lparr>is_sdxl = False, is_sd2 = False, is_sd1 = True, is_ssd = False\<rparr>,
        diffusion_model = UNetModelLDM 0, compile_unet_calls = 1\<rparr>)"
  by (simp add: script_run_def run_need_recompile_def check_model_structure_change_eq
      ckpt_name_def Let_def split_def quantization_flag_def init_webui_def run_recompile_def
      run_process_def with_UnetCompileCtx_eq process_images_returns_def
      script_compile_unet_def)

end
